theory Spec2Isabelle
  imports Complex_Main "HOL-Library.Monad_Syntax"
begin

section \<open>Tensors and the torch primitives the mask decoder uses\<close>

text \<open>
  The decoder of \<^verbatim>\<open>segment_anything/modeling/mask_decoder.py\<close> computes on torch
  tensors. A tensor is modelled as a nested list of its scalars (row-major, outermost axis
  first); its scalars are idealised as reals. The nested list shows every axis size of a
  tensor that has no axis of size zero. A torch operation that raises on its arguments
  returns \<open>None\<close>.
\<close>

type_synonym vec = "real list"
type_synonym tensor2 = "real list list"
type_synonym tensor3 = "real list list list"
type_synonym tensor4 = "real list list list list"

definition shape2 :: "'a list list \<Rightarrow> nat \<Rightarrow> nat \<Rightarrow> bool" where
  "shape2 t a b = (length t = a \<and> list_all (\<lambda>r. length r = b) t)"

definition shape3 :: "'a list list list \<Rightarrow> nat \<Rightarrow> nat \<Rightarrow> nat \<Rightarrow> bool" where
  "shape3 t a b c = (length t = a \<and> list_all (\<lambda>m. shape2 m b c) t)"

definition shape4 :: "'a list list list list \<Rightarrow> nat \<Rightarrow> nat \<Rightarrow> nat \<Rightarrow> nat \<Rightarrow> bool" where
  "shape4 t a b c d = (length t = a \<and> list_all (\<lambda>m. shape3 m b c d) t)"

text \<open>
  Parameter values. A torch constructor fills a new parameter tensor with random numbers
  and a checkpoint may overwrite them later; the constructors below read the values from a
  generator, a function from an index path to a scalar, so that a constructed module
  stands for every choice of parameter values of the right shape.
\<close>

type_synonym gen = "nat list \<Rightarrow> real"

definition sub :: "gen \<Rightarrow> nat \<Rightarrow> gen" where
  "sub g i = (\<lambda>p. g (i # p))"

subsection \<open>\<^verbatim>\<open>nn.Linear\<close>, \<^verbatim>\<open>F.relu\<close>, \<^verbatim>\<open>F.sigmoid\<close>\<close>

record Linear =
  in_features :: nat
  out_features :: nat
  lin_weight :: tensor2
  lin_bias :: vec

text \<open>\<^verbatim>\<open>nn.Linear(n, k)\<close>: weight of shape [k, n], bias of shape [k]; torch refuses a
  negative size.\<close>

definition nn_Linear :: "gen \<Rightarrow> int \<Rightarrow> int \<Rightarrow> Linear option" where
  "nn_Linear g n k =
     (if n < 0 \<or> k < 0 then None
      else Some \<lparr>in_features = nat n, out_features = nat k,
                 lin_weight = map (\<lambda>out. map (\<lambda>i. g [0, out, i]) [0..<nat n]) [0..<nat k],
                 lin_bias = map (\<lambda>out. g [1, out]) [0..<nat k]\<rparr>)"

definition dot :: "vec \<Rightarrow> vec \<Rightarrow> real" where
  "dot u v = sum_list (map2 (*) u v)"

text \<open>\<^verbatim>\<open>layer(x)\<close> on a batch of row vectors: \<open>x W\<^sup>T + b\<close>; raises when the rows do not
  have \<open>in_features\<close> entries.\<close>

definition Linear_forward :: "Linear \<Rightarrow> tensor2 \<Rightarrow> tensor2 option" where
  "Linear_forward l x =
     (if list_all (\<lambda>r. length r = in_features l) x
      then Some (map (\<lambda>r. map2 (\<lambda>w b. dot r w + b) (lin_weight l) (lin_bias l)) x)
      else None)"

definition relu :: "real \<Rightarrow> real" where
  "relu x = max 0 x"

definition sigmoid :: "real \<Rightarrow> real" where
  "sigmoid x = 1 / (1 + exp (- x))"

subsection \<open>The class \<^verbatim>\<open>MLP\<close>\<close>

record MLP =
  num_layers :: int
  layers :: "Linear list"
  sigmoid_output :: bool

text \<open>\<^verbatim>\<open>MLP.__init__\<close>: \<^verbatim>\<open>h = [hidden_dim] * (num_layers - 1)\<close> is the empty list when
  \<^verbatim>\<open>num_layers - 1\<close> is not positive; one \<^verbatim>\<open>nn.Linear(n, k)\<close> per pair of
  \<^verbatim>\<open>zip([input_dim] + h, h + [output_dim])\<close>.\<close>

definition MLP_init :: "gen \<Rightarrow> int \<Rightarrow> int \<Rightarrow> int \<Rightarrow> int \<Rightarrow> bool \<Rightarrow> MLP option" where
  "MLP_init g input_dim hidden_dim output_dim n sigmoid_out =
     (let h = replicate (nat (n - 1)) hidden_dim in
      do {
        ls \<leftarrow> those (map (\<lambda>(i, (a, b)). nn_Linear (sub g i) a b)
                           (enumerate 0 (zip (input_dim # h) (h @ [output_dim]))));
        Some \<lparr>num_layers = n, layers = ls, sigmoid_output = sigmoid_out\<rparr>
      })"

text \<open>\<^verbatim>\<open>MLP.forward\<close>: the loop over \<^verbatim>\<open>enumerate(self.layers)\<close>, with the test
  \<^verbatim>\<open>i < self.num_layers - 1\<close> on the index, then the optional sigmoid.\<close>

fun MLP_loop :: "int \<Rightarrow> (nat \<times> Linear) list \<Rightarrow> tensor2 \<Rightarrow> tensor2 option" where
  "MLP_loop n [] x = Some x"
| "MLP_loop n ((i, layer) # rest) x =
     do {
       y \<leftarrow> Linear_forward layer x;
       MLP_loop n rest (if int i < n - 1 then map (map relu) y else y)
     }"

definition MLP_forward :: "MLP \<Rightarrow> tensor2 \<Rightarrow> tensor2 option" where
  "MLP_forward m x =
     do {
       y \<leftarrow> MLP_loop (num_layers m) (enumerate 0 (layers m)) x;
       Some (if sigmoid_output m then map (map sigmoid) y else y)
     }"

text \<open>The multi-layer perceptron as the specification words it: every stage but the last
  is a linear map followed by the rectified-linear activation, the last stage is the
  linear map alone.\<close>

fun spec_stages :: "Linear list \<Rightarrow> tensor2 \<Rightarrow> tensor2 option" where
  "spec_stages [] x = Some x"
| "spec_stages [l] x = Linear_forward l x"
| "spec_stages (l # ls) x = do { y \<leftarrow> Linear_forward l x; spec_stages ls (map (map relu) y) }"

text \<open>Shape invariants of the constructed modules: a linear layer whose parameter tensors
  have the sizes its fields name, and a list of layers in which each layer's output size is
  the next layer's input size.\<close>

definition Linear_wf :: "Linear \<Rightarrow> bool" where
  "Linear_wf l = (shape2 (lin_weight l) (out_features l) (in_features l)
                  \<and> length (lin_bias l) = out_features l)"

fun chain :: "Linear list \<Rightarrow> nat \<Rightarrow> nat \<Rightarrow> bool" where
  "chain [] a b = (a = b)"
| "chain (l # ls) a b = (Linear_wf l \<and> in_features l = a \<and> chain ls (out_features l) b)"

subsection \<open>\<^verbatim>\<open>nn.Embedding\<close> and \<^verbatim>\<open>nn.ConvTranspose2d\<close>\<close>

record Embedding =
  num_embeddings :: nat
  embedding_dim :: nat
  emb_weight :: tensor2

definition nn_Embedding :: "gen \<Rightarrow> int \<Rightarrow> int \<Rightarrow> Embedding option" where
  "nn_Embedding g num edim =
     (if num < 0 \<or> edim < 0 then None
      else Some \<lparr>num_embeddings = nat num, embedding_dim = nat edim,
                 emb_weight = map (\<lambda>r. map (\<lambda>i. g [r, i]) [0..<nat edim]) [0..<nat num]\<rparr>)"

text \<open>Axis sizes read off a nested list: \<open>length t\<close> is \<^verbatim>\<open>t.size(0)\<close>.\<close>

definition size1 :: "'a list list \<Rightarrow> nat" where
  "size1 t = (case t of [] \<Rightarrow> 0 | x # _ \<Rightarrow> length x)"

definition size2 :: "'a list list list \<Rightarrow> nat" where
  "size2 t = (case t of [] \<Rightarrow> 0 | x # _ \<Rightarrow> size1 x)"

definition size3 :: "'a list list list list \<Rightarrow> nat" where
  "size3 t = (case t of [] \<Rightarrow> 0 | x # _ \<Rightarrow> size2 x)"

record ConvTranspose2d =
  in_channels :: nat
  out_channels :: nat
  kernel_size :: nat
  stride :: nat
  conv_weight :: tensor4
  conv_bias :: vec

text \<open>\<^verbatim>\<open>nn.ConvTranspose2d(cin, cout, kernel_size=k, stride=s)\<close>: weight of shape
  [cin, cout, k, k], bias of shape [cout]; padding 0, dilation 1, one group.\<close>

definition nn_ConvTranspose2d ::
  "gen \<Rightarrow> int \<Rightarrow> int \<Rightarrow> nat \<Rightarrow> nat \<Rightarrow> ConvTranspose2d option" where
  "nn_ConvTranspose2d g cin cout k s =
     (if cin < 0 \<or> cout < 0 then None
      else Some \<lparr>in_channels = nat cin, out_channels = nat cout, kernel_size = k, stride = s,
                 conv_weight =
                   map (\<lambda>ci. map (\<lambda>co. map (\<lambda>ky. map (\<lambda>kx. g [0, ci, co, ky, kx])
                     [0..<k]) [0..<k]) [0..<nat cout]) [0..<nat cin],
                 conv_bias = map (\<lambda>co. g [1, co]) [0..<nat cout]\<rparr>)"

text \<open>The share of the input pixel that kernel position \<open>(ky, kx)\<close> maps onto output pixel
  \<open>(oy, ox)\<close>: input pixel \<open>(iy, ix)\<close> reaches \<open>(iy * s + ky, ix * s + kx)\<close>.\<close>

definition conv_tap ::
  "nat \<Rightarrow> real list list \<Rightarrow> real list list \<Rightarrow> nat \<Rightarrow> nat \<Rightarrow> nat \<Rightarrow> nat \<Rightarrow> real" where
  "conv_tap s xc wk oy ox ky kx =
     (if ky \<le> oy \<and> kx \<le> ox \<and> (oy - ky) mod s = 0 \<and> (ox - kx) mod s = 0
         \<and> (oy - ky) div s < length xc \<and> (ox - kx) div s < size1 xc
      then xc ! ((oy - ky) div s) ! ((ox - kx) div s) * wk ! ky ! kx
      else 0)"

text \<open>One image [cin, h, w] to [cout, (h - 1) * s + k, (w - 1) * s + k].\<close>

definition conv_transpose_image :: "ConvTranspose2d \<Rightarrow> tensor3 \<Rightarrow> tensor3" where
  "conv_transpose_image cv x =
     (let k = kernel_size cv; s = stride cv;
          ho = size1 x * s + k - s; wo = size2 x * s + k - s
      in map (\<lambda>co. map (\<lambda>oy. map (\<lambda>ox.
            conv_bias cv ! co +
            sum_list (map (\<lambda>ci. sum_list (map (\<lambda>ky. sum_list (map (\<lambda>kx.
              conv_tap s (x ! ci) (conv_weight cv ! ci ! co) oy ox ky kx)
              [0..<k])) [0..<k])) [0..<in_channels cv]))
          [0..<wo]) [0..<ho]) [0..<out_channels cv])"

definition ConvTranspose2d_forward :: "ConvTranspose2d \<Rightarrow> tensor4 \<Rightarrow> tensor4 option" where
  "ConvTranspose2d_forward cv x =
     (if list_all (\<lambda>img. length img = in_channels cv) x
      then Some (map (conv_transpose_image cv) x)
      else None)"

subsection \<open>\<^verbatim>\<open>nn.Sequential\<close>\<close>

text \<open>The modules of the upscaler. \<^verbatim>\<open>LayerNorm2d\<close> is imported from
  \<^verbatim>\<open>.common\<close>, which is not among the sources at hand: its forward map is a parameter.
  The activation class is a constructor argument; its instance acts on every scalar.\<close>

datatype module =
    ConvT ConvTranspose2d
  | Norm "tensor4 \<Rightarrow> tensor4"
  | Act "real \<Rightarrow> real"

fun module_forward :: "module \<Rightarrow> tensor4 \<Rightarrow> tensor4 option" where
  "module_forward (ConvT cv) x = ConvTranspose2d_forward cv x"
| "module_forward (Norm f) x = Some (f x)"
| "module_forward (Act a) x = Some (map (map (map (map a))) x)"

fun Sequential_forward :: "module list \<Rightarrow> tensor4 \<Rightarrow> tensor4 option" where
  "Sequential_forward [] x = Some x"
| "Sequential_forward (m # ms) x = do { y \<leftarrow> module_forward m x; Sequential_forward ms y }"

subsection \<open>Concatenation, repetition, broadcasting, indexing, views\<close>

definition uniform :: "'a list list \<Rightarrow> bool" where
  "uniform rs = (case rs of [] \<Rightarrow> True | r # rest \<Rightarrow> list_all (\<lambda>x. length x = length r) rest)"

text \<open>\<^verbatim>\<open>torch.cat((a, b), dim=1)\<close> on [B, T, C] tensors: the other two axes must agree.\<close>

definition cat_dim1 :: "tensor3 \<Rightarrow> tensor3 \<Rightarrow> tensor3 option" where
  "cat_dim1 a b =
     (if length a = length b \<and> uniform (concat a @ concat b)
      then Some (map2 (@) a b) else None)"

text \<open>\<^verbatim>\<open>torch.repeat_interleave(x, n, dim=0)\<close>: every entry of the first axis \<open>n\<close> times
  in a row.\<close>

definition repeat_interleave :: "'a list \<Rightarrow> nat \<Rightarrow> 'a list" where
  "repeat_interleave x n = concat (map (replicate n) x)"

text \<open>Broadcasting along one axis: equal sizes pair up, a size of one is repeated, anything
  else raises.\<close>

definition broadcast2 :: "('a \<Rightarrow> 'b \<Rightarrow> 'c option) \<Rightarrow> 'a list \<Rightarrow> 'b list \<Rightarrow> 'c list option" where
  "broadcast2 f xs ys =
     (if length xs = length ys then those (map2 f xs ys)
      else if length xs = 1 then those (map (f (hd xs)) ys)
      else if length ys = 1 then those (map (\<lambda>x. f x (hd ys)) xs)
      else None)"

definition add4 :: "tensor4 \<Rightarrow> tensor4 \<Rightarrow> tensor4 option" where
  "add4 = broadcast2 (broadcast2 (broadcast2 (broadcast2 (\<lambda>a b. Some (a + b)))))"

text \<open>\<^verbatim>\<open>t[:, i, :]\<close> raises when the second axis has no index \<open>i\<close>.\<close>

definition index_dim1 :: "'a list list \<Rightarrow> nat \<Rightarrow> 'a list option" where
  "index_dim1 t i = (if list_all (\<lambda>m. i < length m) t then Some (map (\<lambda>m. m ! i) t) else None)"

text \<open>A Python slice with bounds that are not negative: \<^verbatim>\<open>slice(start, None)\<close> and
  \<^verbatim>\<open>slice(start, stop)\<close>, clamped to the list.\<close>

definition py_slice :: "nat \<Rightarrow> nat option \<Rightarrow> 'a list \<Rightarrow> 'a list" where
  "py_slice start stop xs =
     (case stop of None \<Rightarrow> drop start xs | Some e \<Rightarrow> take (e - start) (drop start xs))"

definition transpose2 :: "'a list list \<Rightarrow> 'a list list" where
  "transpose2 m = map (\<lambda>j. map (\<lambda>r. r ! j) m) [0..<size1 m]"

function chunk :: "nat \<Rightarrow> 'a list \<Rightarrow> 'a list list" where
  "chunk n xs = (if n = 0 \<or> xs = [] then [] else take n xs # chunk n (drop n xs))"
  by pat_completeness auto
termination
  by (relation "measure (\<lambda>(n, xs). length xs)") auto

text \<open>\<^verbatim>\<open>t.view(b, c, h, w)\<close> on the transposed (not contiguous) source [b, c, h * w]: the
  last axis is split in rows of \<open>w\<close>; a tensor of another shape is rejected.\<close>

definition view4 :: "tensor3 \<Rightarrow> nat \<Rightarrow> nat \<Rightarrow> nat \<Rightarrow> nat \<Rightarrow> tensor4 option" where
  "view4 t b c h w = (if shape3 t b c (h * w) then Some (map (map (chunk w)) t) else None)"

text \<open>\<^verbatim>\<open>t.view(b, -1, h, w)\<close> on a contiguous tensor: the scalars in row-major order are
  regrouped; torch raises when the tensor is empty or its size is not a multiple of
  \<open>b * h * w\<close>.\<close>

definition view_infer :: "tensor3 \<Rightarrow> nat \<Rightarrow> nat \<Rightarrow> nat \<Rightarrow> tensor4 option" where
  "view_infer t b h w =
     (let e = concat (concat t) in
      if e = [] \<or> b * h * w = 0 \<or> \<not> (b * h * w) dvd length e then None
      else Some (chunk (length e div (b * h * w)) (chunk h (chunk w e))))"

text \<open>\<^verbatim>\<open>torch.stack(ts, dim=1)\<close> of [B, C] tensors: raises on an empty list and on tensors
  of different shapes.\<close>

definition stack_dim1 :: "tensor2 list \<Rightarrow> tensor3 option" where
  "stack_dim1 ts =
     (case ts of [] \<Rightarrow> None
      | t # _ \<Rightarrow>
          if list_all (\<lambda>u. length u = length t) ts \<and> uniform (concat ts)
          then Some (map (\<lambda>j. map (\<lambda>u. u ! j) ts) [0..<length t])
          else None)"

text \<open>\<^verbatim>\<open>a @ b\<close>: matrix product on the last two axes, broadcasting on the first.\<close>

definition matmul2 :: "tensor2 \<Rightarrow> tensor2 \<Rightarrow> tensor2 option" where
  "matmul2 a b =
     (if list_all (\<lambda>r. length r = length b) a
      then Some (map (\<lambda>r. map (\<lambda>j. dot r (map (\<lambda>br. br ! j) b)) [0..<size1 b]) a)
      else None)"

definition matmul :: "tensor3 \<Rightarrow> tensor3 \<Rightarrow> tensor3 option" where
  "matmul = broadcast2 matmul2"

section \<open>The class \<^verbatim>\<open>MaskDecoder\<close>\<close>

record MaskDecoder =
  transformer_dim :: int
  transformer :: "tensor4 \<Rightarrow> tensor4 \<Rightarrow> tensor3 \<Rightarrow> tensor3 \<times> tensor3"
  num_multimask_outputs :: int
  iou_token :: Embedding
  num_mask_tokens :: int
  mask_tokens :: Embedding
  output_upscaling :: "module list"
  output_hypernetworks_mlps :: "MLP list"
  iou_prediction_head :: MLP

text \<open>\<^verbatim>\<open>MaskDecoder.__init__\<close>. The transformer is an opaque module: a function from the
  source, its positional encoding and the tokens to the refined tokens and the refined
  source. \<^verbatim>\<open>//\<close> is floor division, as \<open>div\<close> on \<open>int\<close> is.\<close>

definition MaskDecoder_init ::
  "gen \<Rightarrow> (int \<Rightarrow> tensor4 \<Rightarrow> tensor4) \<Rightarrow> int \<Rightarrow> (tensor4 \<Rightarrow> tensor4 \<Rightarrow> tensor3 \<Rightarrow> tensor3 \<times> tensor3)
     \<Rightarrow> int \<Rightarrow> (real \<Rightarrow> real) \<Rightarrow> int \<Rightarrow> int \<Rightarrow> MaskDecoder option" where
  "MaskDecoder_init g LayerNorm2d td tr nmo activation iou_head_depth iou_head_hidden_dim =
     do {
       iou_tok \<leftarrow> nn_Embedding (sub g 0) 1 td;
       let nmt = nmo + 1;
       mask_toks \<leftarrow> nn_Embedding (sub g 1) nmt td;
       c1 \<leftarrow> nn_ConvTranspose2d (sub g 2) td (td div 4) 2 2;
       c2 \<leftarrow> nn_ConvTranspose2d (sub g 3) (td div 4) (td div 8) 2 2;
       mlps \<leftarrow> those (map (\<lambda>i. MLP_init (sub (sub g 4) i) td td (td div 8) 3 False)
                          [0..<nat nmt]);
       head \<leftarrow> MLP_init (sub g 5) td iou_head_hidden_dim nmt iou_head_depth False;
       Some \<lparr>transformer_dim = td, transformer = tr, num_multimask_outputs = nmo,
             iou_token = iou_tok, num_mask_tokens = nmt, mask_tokens = mask_toks,
             output_upscaling =
               [ConvT c1, Norm (LayerNorm2d (td div 4)), Act activation, ConvT c2, Act activation],
             output_hypernetworks_mlps = mlps, iou_prediction_head = head\<rparr>
     }"

text \<open>\<^verbatim>\<open>MaskDecoder.predict_masks\<close>, statement by statement.\<close>

definition predict_masks ::
  "MaskDecoder \<Rightarrow> tensor4 \<Rightarrow> tensor4 \<Rightarrow> tensor3 \<Rightarrow> tensor4 \<Rightarrow> (tensor4 \<times> tensor2) option" where
  "predict_masks d image_embeddings image_pe sparse_prompt_embeddings dense_prompt_embeddings =
     do {
       let output_tokens = emb_weight (iou_token d) @ emb_weight (mask_tokens d);
       let output_tokens = replicate (length sparse_prompt_embeddings) output_tokens;
       tokens \<leftarrow> cat_dim1 output_tokens sparse_prompt_embeddings;
       let src = repeat_interleave image_embeddings (length tokens);
       src \<leftarrow> add4 src dense_prompt_embeddings;
       let pos_src = repeat_interleave image_pe (length tokens);
       let (b, c, h, w) = (length src, size1 src, size2 src, size3 src);
       let (hs, src) = transformer d src pos_src tokens;
       iou_token_out \<leftarrow> index_dim1 hs 0;
       let mask_tokens_out = map (py_slice 1 (Some (1 + nat (num_mask_tokens d)))) hs;
       src \<leftarrow> view4 (map transpose2 src) b c h w;
       upscaled_embedding \<leftarrow> Sequential_forward (output_upscaling d) src;
       hyper_in_list \<leftarrow> those (map (\<lambda>i. do {
                                   t \<leftarrow> index_dim1 mask_tokens_out i;
                                   MLP_forward (output_hypernetworks_mlps d ! i) t
                                 }) [0..<nat (num_mask_tokens d)]);
       hyper_in \<leftarrow> stack_dim1 hyper_in_list;
       let (b, c, h, w) = (length upscaled_embedding, size1 upscaled_embedding,
                           size2 upscaled_embedding, size3 upscaled_embedding);
       mm \<leftarrow> matmul hyper_in (map (map concat) upscaled_embedding);
       masks \<leftarrow> view_infer mm b h w;
       iou_pred \<leftarrow> MLP_forward (iou_prediction_head d) iou_token_out;
       Some (masks, iou_pred)
     }"

text \<open>\<^verbatim>\<open>MaskDecoder.forward\<close>: \<^verbatim>\<open>slice(1, None)\<close> or \<^verbatim>\<open>slice(0, 1)\<close> on the mask
  axis of both results.\<close>

definition forward ::
  "MaskDecoder \<Rightarrow> tensor4 \<Rightarrow> tensor4 \<Rightarrow> tensor3 \<Rightarrow> tensor4 \<Rightarrow> bool \<Rightarrow> (tensor4 \<times> tensor2) option" where
  "forward d image_embeddings image_pe sparse_prompt_embeddings dense_prompt_embeddings
     multimask_output =
     do {
       (masks, iou_pred) \<leftarrow> predict_masks d image_embeddings image_pe
                               sparse_prompt_embeddings dense_prompt_embeddings;
       let mask_slice = (if multimask_output then (1, None) else (0, Some 1));
       let masks = map (py_slice (fst mask_slice) (snd mask_slice)) masks;
       let iou_pred = map (py_slice (fst mask_slice) (snd mask_slice)) iou_pred;
       Some (masks, iou_pred)
     }"

section \<open>Contracts of the modules that are parameters\<close>

text \<open>The normalisation layer keeps the shape of a tensor with \<open>c\<close> channels.\<close>

definition keeps_shape :: "(tensor4 \<Rightarrow> tensor4) \<Rightarrow> nat \<Rightarrow> bool" where
  "keeps_shape f c = (\<forall>t b h w. shape4 t b c h w \<longrightarrow> shape4 (f t) b c h w)"

text \<open>The transformer's contract: for a source and a positional encoding of shape
  [b, c, h, w] and tokens of shape [b, t, c] it returns refined tokens of shape [b, t, c] and
  the refined source, flattened, of shape [b, h * w, c].\<close>

definition transformer_contract ::
  "(tensor4 \<Rightarrow> tensor4 \<Rightarrow> tensor3 \<Rightarrow> tensor3 \<times> tensor3) \<Rightarrow> nat \<Rightarrow> nat \<Rightarrow> nat \<Rightarrow> nat \<Rightarrow> nat \<Rightarrow> bool" where
  "transformer_contract tr b c h w t =
     (\<forall>src pos tokens. shape4 src b c h w \<and> shape4 pos b c h w \<and> shape3 tokens b t c \<longrightarrow>
        shape3 (fst (tr src pos tokens)) b t c \<and> shape3 (snd (tr src pos tokens)) b (h * w) c)"

section \<open>A concrete call\<close>

text \<open>The end-to-end scenario of the specification: 256 channels, one image with a
  64 by 64 feature map, two prompt instances of two points each, three multimask outputs.
  The parameters are all zero, the normalisation is the identity, and the transformer
  returns the tokens as they are and the source flattened to [b, h * w, c].\<close>

definition example_gen :: gen where
  "example_gen p = 0"

definition identity_norm :: "int \<Rightarrow> tensor4 \<Rightarrow> tensor4" where
  "identity_norm n t = t"

definition flat_transformer :: "tensor4 \<Rightarrow> tensor4 \<Rightarrow> tensor3 \<Rightarrow> tensor3 \<times> tensor3" where
  "flat_transformer src pos tokens = (tokens, map (\<lambda>img. transpose2 (map concat img)) src)"

definition example_decoder :: MaskDecoder where
  "example_decoder =
     the (MaskDecoder_init example_gen identity_norm 256 flat_transformer 3 relu 3 256)"

definition example_image :: tensor4 where
  "example_image = [replicate 256 (replicate 64 (replicate 64 0))]"

definition example_sparse :: tensor3 where
  "example_sparse = replicate 2 (replicate 2 (replicate 256 0))"

definition example_dense :: tensor4 where
  "example_dense = replicate 2 (replicate 256 (replicate 64 (replicate 64 0)))"

section \<open>The multi-layer perceptron\<close>

lemma those_eq_Some: "those xs = Some ys \<longleftrightarrow> xs = map Some ys"
  by (induction xs arbitrary: ys) (auto split: option.splits)

lemma nn_Linear_Some:
  "nn_Linear g n k = Some l \<Longrightarrow> 0 \<le> n \<and> 0 \<le> k \<and> Linear_wf l \<and> in_features l = nat n \<and> out_features l = nat k"
  by (auto simp: nn_Linear_def Linear_wf_def shape2_def list_all_iff split: if_splits)

lemma nn_Linear_ok: "0 \<le> n \<Longrightarrow> 0 \<le> k \<Longrightarrow> \<exists>l. nn_Linear g n k = Some l"
  by (simp add: nn_Linear_def)

lemma Linear_forward_shape:
  "Linear_wf l \<Longrightarrow> shape2 x r (in_features l) \<Longrightarrow>
   \<exists>y. Linear_forward l x = Some y \<and> shape2 y r (out_features l)"
  by (auto simp: Linear_forward_def Linear_wf_def shape2_def list_all_iff)

lemma layers_chain:
  "those (map (\<lambda>(i, (x, y)). nn_Linear (sub g i) x y)
       (enumerate j (zip (a # replicate k h) (replicate k h @ [b])))) = Some ls
   \<Longrightarrow> chain ls (nat a) (nat b) \<and> length ls = Suc k \<and> 0 \<le> a \<and> 0 \<le> b \<and> (0 < k \<longrightarrow> 0 \<le> h)"
proof (induction k arbitrary: a j ls)
  case 0
  then show ?case by (auto split: option.splits dest: nn_Linear_Some)
next
  case (Suc k)
  from Suc.prems obtain l rest where
    l: "nn_Linear (sub g j) a h = Some l" and
    rest: "those (map (\<lambda>(i, (x, y)). nn_Linear (sub g i) x y)
       (enumerate (Suc j) (zip (h # replicate k h) (replicate k h @ [b])))) = Some rest" and
    ls: "ls = l # rest"
    by (auto split: option.splits)
  from Suc.IH[OF rest] nn_Linear_Some[OF l] ls show ?case by auto
qed

lemma layers_dims:
  "those (map (\<lambda>(i, (x, y)). nn_Linear (sub g i) x y)
       (enumerate j (zip (a # replicate k h) (replicate k h @ [b])))) = Some ls
   \<Longrightarrow> i \<le> k \<Longrightarrow> in_features (ls ! i) = nat (if i = 0 then a else h) \<and>
        out_features (ls ! i) = nat (if i = k then b else h)"
proof (induction k arbitrary: a j ls i)
  case 0
  then show ?case by (auto split: option.splits dest: nn_Linear_Some)
next
  case (Suc k)
  from Suc.prems obtain l rest where
    l: "nn_Linear (sub g j) a h = Some l" and
    rest: "those (map (\<lambda>(i, (x, y)). nn_Linear (sub g i) x y)
       (enumerate (Suc j) (zip (h # replicate k h) (replicate k h @ [b])))) = Some rest" and
    ls: "ls = l # rest"
    by (auto split: option.splits)
  show ?case
  proof (cases i)
    case 0
    with nn_Linear_Some[OF l] ls show ?thesis by simp
  next
    case (Suc i')
    with Suc.prems have "i' \<le> k" by simp
    from Suc.IH[OF rest this] Suc ls show ?thesis by simp
  qed
qed

lemma layers_ok:
  "0 \<le> a \<Longrightarrow> 0 \<le> b \<Longrightarrow> (0 < k \<longrightarrow> 0 \<le> h) \<Longrightarrow>
   \<exists>ls. those (map (\<lambda>(i, (x, y)). nn_Linear (sub g i) x y)
       (enumerate j (zip (a # replicate k h) (replicate k h @ [b])))) = Some ls"
proof (induction k arbitrary: a j)
  case 0
  then show ?case using nn_Linear_ok[of a b "sub g j"] by auto
next
  case (Suc k)
  from Suc.prems have h: "0 \<le> h" by simp
  from Suc.IH[of h "Suc j"] Suc.prems h obtain rest where
    "those (map (\<lambda>(i, (x, y)). nn_Linear (sub g i) x y)
       (enumerate (Suc j) (zip (h # replicate k h) (replicate k h @ [b])))) = Some rest" by auto
  moreover obtain l where "nn_Linear (sub g j) a h = Some l" using nn_Linear_ok[of a h "sub g j"] Suc.prems h by auto
  ultimately show ?case by auto
qed

lemma MLP_loop_spec:
  "int (j + length ls) = n \<Longrightarrow> MLP_loop n (enumerate j ls) x = spec_stages ls x"
proof (induction ls arbitrary: j x)
  case Nil
  then show ?case by simp
next
  case (Cons l rest)
  show ?case
  proof (cases rest)
    case Nil
    with Cons.prems show ?thesis by simp
  next
    case (Cons r rs)
    with Cons.prems Cons.IH[of "Suc j"] show ?thesis by simp
  qed
qed

lemma spec_stages_shape:
  "chain ls a b \<Longrightarrow> shape2 x r a \<Longrightarrow> \<exists>y. spec_stages ls x = Some y \<and> shape2 y r b"
proof (induction ls x arbitrary: a rule: spec_stages.induct)
  case (1 x)
  then show ?case by simp
next
  case (2 l x)
  then show ?case using Linear_forward_shape[of l x r] by auto
next
  case (3 l v va x)
  from "3.prems" obtain y where y: "Linear_forward l x = Some y" "shape2 y r (out_features l)"
    using Linear_forward_shape[of l x r] by auto
  have "shape2 (map (map relu) y) r (out_features l)" using y(2) by (simp add: shape2_def list_all_iff)
  from "3.IH"[OF y(1) _ this] "3.prems" y(1) show ?case by auto
qed

text \<open>What the constructor returns, and when.\<close>

lemma MLP_init_Some:
  assumes "MLP_init g a h b n sg = Some m"
  shows "num_layers m = n \<and> sigmoid_output m = sg \<and> length (layers m) = Suc (nat (n - 1))
       \<and> chain (layers m) (nat a) (nat b) \<and> 0 \<le> a \<and> 0 \<le> b \<and> (1 < n \<longrightarrow> 0 \<le> h)"
proof -
  from assms obtain ls where
    ls: "those (map (\<lambda>(i, (x, y)). nn_Linear (sub g i) x y)
       (enumerate 0 (zip (a # replicate (nat (n - 1)) h) (replicate (nat (n - 1)) h @ [b])))) = Some ls"
    and m: "m = \<lparr>num_layers = n, layers = ls, sigmoid_output = sg\<rparr>"
    by (auto simp: MLP_init_def Let_def split: bind_splits)
  from layers_chain[OF ls] m show ?thesis by auto
qed

lemma MLP_init_ok:
  assumes "0 \<le> a" "0 \<le> b" "1 < n \<longrightarrow> 0 \<le> h"
  shows "\<exists>m. MLP_init g a h b n sg = Some m"
proof -
  have "0 < nat (n - 1) \<longrightarrow> 0 \<le> h" using assms(3) by auto
  from layers_ok[OF assms(1,2) this, of g 0]
  show ?thesis by (auto simp: MLP_init_def Let_def)
qed

lemma MLP_init_dims:
  assumes "MLP_init g a h b n sg = Some m" "i \<le> nat (n - 1)"
  shows "in_features (layers m ! i) = nat (if i = 0 then a else h) \<and>
         out_features (layers m ! i) = nat (if i = nat (n - 1) then b else h)"
proof -
  from assms obtain ls where
    ls: "those (map (\<lambda>(i, (x, y)). nn_Linear (sub g i) x y)
       (enumerate 0 (zip (a # replicate (nat (n - 1)) h) (replicate (nat (n - 1)) h @ [b])))) = Some ls"
    and m: "m = \<lparr>num_layers = n, layers = ls, sigmoid_output = sg\<rparr>"
    by (auto simp: MLP_init_def Let_def split: bind_splits)
  from layers_dims[OF ls assms(2)] m show ?thesis by simp
qed

lemma MLP_forward_spec:
  assumes "MLP_init g a h b n sg = Some m" "1 \<le> n"
  shows "MLP_forward m x =
         do { y \<leftarrow> spec_stages (layers m) x; Some (if sg then map (map sigmoid) y else y) }"
proof -
  from MLP_init_Some[OF assms(1)] assms(2)
  have "int (0 + length (layers m)) = num_layers m" and "sigmoid_output m = sg" by auto
  with MLP_loop_spec[of 0 "layers m" "num_layers m" x]
  show ?thesis by (simp add: MLP_forward_def)
qed

text \<open>
  Claim C7, amended to \<open>num_layers \<ge> 1\<close>. An \<^verbatim>\<open>MLP\<close> constructed with \<open>num_layers = n \<ge> 1\<close> has exactly \<open>n\<close> linear
  layers; the first takes \<open>input_dim\<close> entries, the last yields \<open>output_dim\<close> entries and
  the \<open>n - 1\<close> layers before the last yield \<open>hidden_dim\<close> entries. Its forward pass is the
  specification's chain of stages (a rectified-linear activation after every stage but the
  last, none after the last), followed by the sigmoid only when \<open>sigmoid_output\<close> is set;
  on a batch of vectors with \<open>input_dim\<close> entries the chain returns vectors with
  \<open>output_dim\<close> entries. With \<open>n = 1\<close> the forward pass is the one linear map, with no
  rectified-linear activation.
\<close>

theorem MLP_stages:
  assumes "1 \<le> n" "0 \<le> a" "0 \<le> b" "1 < n \<longrightarrow> 0 \<le> h"
  shows "\<exists>m. MLP_init g a h b n sg = Some m
     \<and> length (layers m) = nat n
     \<and> (\<forall>i < nat n. in_features (layers m ! i) = nat (if i = 0 then a else h)
                  \<and> out_features (layers m ! i) = nat (if i = nat n - 1 then b else h))
     \<and> (\<forall>x. MLP_forward m x =
             do { y \<leftarrow> spec_stages (layers m) x; Some (if sg then map (map sigmoid) y else y) })
     \<and> (\<forall>x r. shape2 x r (nat a) \<longrightarrow>
             (\<exists>y. spec_stages (layers m) x = Some y \<and> shape2 y r (nat b)))
     \<and> (n = 1 \<longrightarrow> (\<forall>x. MLP_forward m x =
             do { y \<leftarrow> Linear_forward (layers m ! 0) x;
                  Some (if sg then map (map sigmoid) y else y) }))"
proof -
  from MLP_init_ok[OF assms(2,3,4)] obtain m where m: "MLP_init g a h b n sg = Some m" by blast
  note S = MLP_init_Some[OF m]
  have len: "length (layers m) = nat n" using S assms(1) by auto
  have dims: "\<forall>i < nat n. in_features (layers m ! i) = nat (if i = 0 then a else h)
                  \<and> out_features (layers m ! i) = nat (if i = nat n - 1 then b else h)"
  proof (intro allI impI)
    fix i assume "i < nat n"
    with assms(1) have i: "i \<le> nat (n - 1)" by auto
    have "nat (n - 1) = nat n - 1" using assms(1) by auto
    with MLP_init_dims[OF m i] show "in_features (layers m ! i) = nat (if i = 0 then a else h)
                  \<and> out_features (layers m ! i) = nat (if i = nat n - 1 then b else h)" by simp
  qed
  have fw: "\<forall>x. MLP_forward m x =
             do { y \<leftarrow> spec_stages (layers m) x; Some (if sg then map (map sigmoid) y else y) }"
    using MLP_forward_spec[OF m assms(1)] by simp
  have sh: "\<forall>x r. shape2 x r (nat a) \<longrightarrow>
             (\<exists>y. spec_stages (layers m) x = Some y \<and> shape2 y r (nat b))"
    using spec_stages_shape[of "layers m" "nat a" "nat b"] S by blast
  have one: "n = 1 \<longrightarrow> (\<forall>x. MLP_forward m x =
             do { y \<leftarrow> Linear_forward (layers m ! 0) x;
                  Some (if sg then map (map sigmoid) y else y) })"
  proof
    assume "n = 1"
    with len obtain l where "layers m = [l]" by (cases "layers m") auto
    with fw show "\<forall>x. MLP_forward m x =
             do { y \<leftarrow> Linear_forward (layers m ! 0) x;
                  Some (if sg then map (map sigmoid) y else y) }" by simp
  qed
  from m len dims fw sh one show ?thesis by blast
qed

theorem MLP_stages_witness:
  "(1::int) \<le> 2 \<and> (0::int) \<le> 1
   \<and> (\<exists>m. MLP_init (\<lambda>_. 0) 1 1 1 2 False = Some m \<and> length (layers m) = 2
        \<and> MLP_forward m [[1]] = spec_stages (layers m) [[1]]
        \<and> (\<exists>y. spec_stages (layers m) [[1]] = Some y \<and> shape2 y 1 1))"
proof -
  have x: "shape2 [[1::real]] 1 (nat 1)" by (simp add: shape2_def)
  from MLP_stages[of 2 1 1 1 "\<lambda>_. 0" False] obtain m where
    m: "MLP_init (\<lambda>_. 0) 1 1 1 2 False = Some m" "length (layers m) = nat 2"
    and fw: "\<forall>x. MLP_forward m x = do { y \<leftarrow> spec_stages (layers m) x; Some (if False then map (map sigmoid) y else y) }"
    and sh: "\<forall>x r. shape2 x r (nat 1) \<longrightarrow> (\<exists>y. spec_stages (layers m) x = Some y \<and> shape2 y r (nat 1))"
    by auto
  from sh x obtain y where y: "spec_stages (layers m) [[1]] = Some y" "shape2 y 1 (nat 1)" by blast
  from m fw y show ?thesis by auto
qed

text \<open>
  Claim C7 as stated, for every \<open>num_layers\<close>, fails where \<open>num_layers\<close> is zero or negative:
  the constructor succeeds and builds one linear layer, not \<open>num_layers\<close> of them.
\<close>

theorem MLP_zero_layers_counterexample:
  "map_option (\<lambda>m. (num_layers m, length (layers m))) (MLP_init example_gen 2 5 3 0 False)
     = Some (0, 1)
   \<and> map_option (\<lambda>m. (num_layers m, length (layers m))) (MLP_init example_gen 2 5 3 (- 2) False)
     = Some (- 2, 1)"
  by (simp add: MLP_init_def nn_Linear_def)

text \<open>
  Claim C10. For every \<open>num_layers = n \<le> 1\<close>, zero and negative values included, the
  constructor builds exactly one linear layer from \<open>input_dim\<close> to \<open>output_dim\<close> (the hidden
  size plays no part), the forward pass applies that one linear map with no rectified-linear
  activation, and the module behaves as the one constructed with \<open>num_layers = 1\<close>: the
  same layer and the same forward results.
\<close>

theorem MLP_single_layer:
  assumes "n \<le> 1" "0 \<le> a" "0 \<le> b"
  shows "\<exists>l. nn_Linear (sub g 0) a b = Some l
     \<and> in_features l = nat a \<and> out_features l = nat b
     \<and> MLP_init g a h b n sg = Some \<lparr>num_layers = n, layers = [l], sigmoid_output = sg\<rparr>
     \<and> (\<forall>x. MLP_forward \<lparr>num_layers = n, layers = [l], sigmoid_output = sg\<rparr> x =
             do { y \<leftarrow> Linear_forward l x; Some (if sg then map (map sigmoid) y else y) })
     \<and> (\<forall>x. MLP_forward \<lparr>num_layers = n, layers = [l], sigmoid_output = sg\<rparr> x =
             MLP_forward \<lparr>num_layers = 1, layers = [l], sigmoid_output = sg\<rparr> x)
     \<and> MLP_init g a h b 1 sg = Some \<lparr>num_layers = 1, layers = [l], sigmoid_output = sg\<rparr>"
proof -
  from nn_Linear_ok[OF assms(2,3), of "sub g 0"] obtain l where l: "nn_Linear (sub g 0) a b = Some l"
    by blast
  have k: "nat (n - 1) = 0" using assms(1) by simp
  have init: "MLP_init g a h b n sg = Some \<lparr>num_layers = n, layers = [l], sigmoid_output = sg\<rparr>"
    using l by (simp add: MLP_init_def k)
  have init1: "MLP_init g a h b 1 sg = Some \<lparr>num_layers = 1, layers = [l], sigmoid_output = sg\<rparr>"
    using l by (simp add: MLP_init_def)
  have fw: "\<forall>x. MLP_forward \<lparr>num_layers = n, layers = [l], sigmoid_output = sg\<rparr> x =
             do { y \<leftarrow> Linear_forward l x; Some (if sg then map (map sigmoid) y else y) }"
    using assms(1) by (simp add: MLP_forward_def)
  have fw1: "\<forall>x. MLP_forward \<lparr>num_layers = 1, layers = [l], sigmoid_output = sg\<rparr> x =
             do { y \<leftarrow> Linear_forward l x; Some (if sg then map (map sigmoid) y else y) }"
    by (simp add: MLP_forward_def)
  from l nn_Linear_Some[OF l] init init1 fw fw1 show ?thesis by auto
qed

theorem MLP_single_layer_witness:
  "(0::int) \<le> 1 \<and> (0::int) \<le> 2 \<and> (0::int) \<le> 3
   \<and> (\<exists>l. nn_Linear (sub (\<lambda>_. 0) 0) 2 3 = Some l \<and> in_features l = 2 \<and> out_features l = 3
        \<and> MLP_init (\<lambda>_. 0) 2 5 3 0 False = Some \<lparr>num_layers = 0, layers = [l], sigmoid_output = False\<rparr>
        \<and> MLP_init (\<lambda>_. 0) 2 5 3 1 False = Some \<lparr>num_layers = 1, layers = [l], sigmoid_output = False\<rparr>)"
  using MLP_single_layer[of 0 2 3 "\<lambda>_. 0" 5 False] by auto

section \<open>Regrouping a list in rows\<close>

declare chunk.simps [simp del]

lemma chunk_Nil [simp]: "chunk n [] = []"
  by (simp add: chunk.simps)

lemma chunk_0 [simp]: "chunk 0 xs = []"
  by (simp add: chunk.simps)

lemma chunk_append:
  "0 < n \<Longrightarrow> length x = n \<Longrightarrow> chunk n (x @ ys) = x # chunk n ys"
  by (subst chunk.simps) auto

lemma chunk_concat:
  "0 < n \<Longrightarrow> list_all (\<lambda>x. length x = n) xss \<Longrightarrow> chunk n (concat xss) = xss"
  by (induction xss) (simp_all add: chunk_append)

lemma chunk_append_mult:
  "0 < n \<Longrightarrow> length x = k * n \<Longrightarrow> chunk n (x @ ys) = chunk n x @ chunk n ys"
proof (induction k arbitrary: x)
  case 0
  then show ?case by simp
next
  case (Suc k)
  define a where "a = take n x"
  define r where "r = drop n x"
  have x: "x = a @ r" and la: "length a = n" and lr: "length r = k * n"
    using Suc.prems by (simp_all add: a_def r_def)
  have "chunk n (x @ ys) = a # chunk n (r @ ys)"
    using chunk_append[OF Suc.prems(1) la, of "r @ ys"] x by simp
  also have "\<dots> = a # (chunk n r @ chunk n ys)"
    using Suc.IH[OF Suc.prems(1) lr] by simp
  also have "\<dots> = chunk n x @ chunk n ys"
    using chunk_append[OF Suc.prems(1) la, of r] x by simp
  finally show ?case .
qed

lemma chunk_concat_map:
  "0 < n \<Longrightarrow> list_all (\<lambda>x. length x = k * n) xss \<Longrightarrow>
   chunk n (concat xss) = concat (map (chunk n) xss)"
  by (induction xss) (simp_all add: chunk_append_mult)

lemma chunk_shape:
  "0 < n \<Longrightarrow> length x = k * n \<Longrightarrow> shape2 (chunk n x) k n"
proof (induction k arbitrary: x)
  case 0
  then show ?case by (simp add: shape2_def)
next
  case (Suc k)
  have x: "x = take n x @ drop n x" by simp
  have la: "length (take n x) = n" and lr: "length (drop n x) = k * n"
    using Suc.prems by simp_all
  have "chunk n x = take n x # chunk n (drop n x)"
    using chunk_append[OF Suc.prems(1) la, of "drop n x"] by simp
  with Suc.IH[OF Suc.prems(1) lr] la show ?case by (simp add: shape2_def)
qed

lemma chunk_nth:
  "0 < n \<Longrightarrow> length x = k * n \<Longrightarrow> y < k \<Longrightarrow> j < n \<Longrightarrow> chunk n x ! y ! j = x ! (y * n + j)"
proof (induction k arbitrary: x y)
  case 0
  then show ?case by simp
next
  case (Suc k)
  have la: "length (take n x) = n" and lr: "length (drop n x) = k * n"
    using Suc.prems by simp_all
  have c: "chunk n x = take n x # chunk n (drop n x)"
    using chunk_append[OF Suc.prems(1) la, of "drop n x"] by simp
  show ?case
  proof (cases y)
    case 0
    with c Suc.prems show ?thesis by simp
  next
    case (Suc y')
    with Suc.prems have "y' < k" by simp
    from Suc.IH[OF Suc.prems(1) lr this Suc.prems(4)] c Suc Suc.prems
    show ?thesis by (simp add: add.commute add.left_commute)
  qed
qed

lemma length_concat_uniform:
  "list_all (\<lambda>x. length x = n) xss \<Longrightarrow> length (concat xss) = length xss * n"
  by (induction xss) simp_all

lemma concat_nth_uniform:
  "list_all (\<lambda>r. length r = n) rows \<Longrightarrow> y < length rows \<Longrightarrow> j < n \<Longrightarrow>
   concat rows ! (y * n + j) = rows ! y ! j"
proof (induction rows arbitrary: y)
  case Nil
  then show ?case by simp
next
  case (Cons r rows)
  show ?case
  proof (cases y)
    case 0
    with Cons.prems show ?thesis by (simp add: nth_append)
  next
    case (Suc y')
    with Cons.prems Cons.IH[of y'] show ?thesis by (simp add: nth_append)
  qed
qed

lemma view_infer_rows:
  assumes t: "shape3 t b m (h * w)" and pos: "0 < b" "0 < m" "0 < h" "0 < w"
  shows "view_infer t b h w = Some (map (map (chunk w)) t)"
proof -
  have rows: "list_all (\<lambda>r. length r = h * w) (concat t)"
    using t by (auto simp: shape3_def shape2_def list_all_iff)
  have lt: "list_all (\<lambda>x. length x = m) t" and lb: "length t = b"
    using t by (auto simp: shape3_def shape2_def list_all_iff)
  have lrows: "length (concat t) = b * m"
    using length_concat_uniform[OF lt] lb by simp
  have le: "length (concat (concat t)) = b * m * (h * w)"
    using length_concat_uniform[OF rows] lrows by simp
  have ne: "concat (concat t) \<noteq> []"
    using le pos by (metis length_0_conv mult_is_0 less_numeral_extra(3))
  have dv: "(b * h * w) dvd length (concat (concat t))"
    unfolding le by (simp add: ac_simps)
  have q: "length (concat (concat t)) div (b * h * w) = m"
  proof -
    have "b * m * (h * w) = m * (b * h * w)" by (simp add: ac_simps)
    then show ?thesis unfolding le using pos by simp
  qed
  have c1: "chunk w (concat (concat t)) = concat (map (chunk w) (concat t))"
    using chunk_concat_map[OF pos(4) rows] .
  have "list_all (\<lambda>x. length x = h) (map (chunk w) (concat t))"
    using rows chunk_shape[OF pos(4)] by (auto simp: list_all_iff shape2_def)
  from chunk_concat[OF pos(3) this]
  have c2: "chunk h (chunk w (concat (concat t))) = map (chunk w) (concat t)"
    unfolding c1 .
  have "list_all (\<lambda>x. length x = m) (map (map (chunk w)) t)"
    using lt by (auto simp: list_all_iff)
  from chunk_concat[OF pos(2) this]
  have c3: "chunk m (map (chunk w) (concat t)) = map (map (chunk w)) t"
    by (simp add: map_concat)
  show ?thesis
    unfolding view_infer_def Let_def using ne dv pos by (simp add: q c2 c3)
qed

section \<open>Construction of the decoder and the upscaler\<close>

lemma those_map_upt:
  "those (map f [0..<n]) = Some ys \<longleftrightarrow> length ys = n \<and> (\<forall>i<n. f i = Some (ys ! i))"
proof -
  have "map f [0..<n] = map Some ys \<longleftrightarrow> length ys = n \<and> (\<forall>i<n. f i = Some (ys ! i))"
    by (auto simp: list_eq_iff_nth_eq)
  then show ?thesis by (simp add: those_eq_Some)
qed

lemma those_map_upt_ok:
  "(\<forall>i<n. \<exists>y. f i = Some y) \<Longrightarrow> \<exists>ys. those (map f [0..<n]) = Some ys"
proof -
  assume a: "\<forall>i<n. \<exists>y. f i = Some y"
  have "those (map f [0..<n]) = Some (map (\<lambda>i. the (f i)) [0..<n])"
    unfolding those_map_upt using a by auto
  then show ?thesis by blast
qed

lemma nn_Embedding_Some:
  "nn_Embedding g n e = Some em \<Longrightarrow> 0 \<le> n \<and> 0 \<le> e \<and> shape2 (emb_weight em) (nat n) (nat e)"
  by (auto simp: nn_Embedding_def shape2_def list_all_iff split: if_splits)

lemma nn_Embedding_ok: "0 \<le> n \<Longrightarrow> 0 \<le> e \<Longrightarrow> \<exists>em. nn_Embedding g n e = Some em"
  by (simp add: nn_Embedding_def)

lemma nn_ConvTranspose2d_Some:
  "nn_ConvTranspose2d g cin cout k s = Some cv \<Longrightarrow>
   0 \<le> cin \<and> 0 \<le> cout \<and> in_channels cv = nat cin \<and> out_channels cv = nat cout
   \<and> kernel_size cv = k \<and> stride cv = s"
  by (auto simp: nn_ConvTranspose2d_def split: if_splits)

lemma nn_ConvTranspose2d_ok:
  "0 \<le> cin \<Longrightarrow> 0 \<le> cout \<Longrightarrow> \<exists>cv. nn_ConvTranspose2d g cin cout k s = Some cv"
  by (simp add: nn_ConvTranspose2d_def)

lemma shape3_sizes:
  assumes "shape3 img c h w" "0 < c" "0 < h"
  shows "size1 img = h \<and> size2 img = w"
proof -
  from assms obtain ch rest where img: "img = ch # rest" by (cases img) (auto simp: shape3_def)
  with assms have ch: "shape2 ch h w" by (simp add: shape3_def)
  with assms obtain r rs where "ch = r # rs" by (cases ch) (auto simp: shape2_def)
  with ch img show ?thesis by (simp add: size1_def size2_def shape2_def)
qed

lemma conv_transpose_image_shape:
  assumes "shape3 img (in_channels cv) h w" "(0 < in_channels cv \<and> 0 < h) \<or> out_channels cv = 0"
  shows "shape3 (conv_transpose_image cv img) (out_channels cv)
           (h * stride cv + kernel_size cv - stride cv) (w * stride cv + kernel_size cv - stride cv)"
proof (cases "out_channels cv = 0")
  case True
  then show ?thesis by (simp add: conv_transpose_image_def Let_def shape3_def)
next
  case False
  with assms have "size1 img = h \<and> size2 img = w" using shape3_sizes by blast
  then show ?thesis
    by (simp add: conv_transpose_image_def Let_def shape3_def shape2_def list_all_iff)
qed

lemma ConvTranspose2d_forward_shape:
  assumes "shape4 x b (in_channels cv) h w" "(0 < in_channels cv \<and> 0 < h) \<or> out_channels cv = 0"
  shows "\<exists>y. ConvTranspose2d_forward cv x = Some y \<and>
          shape4 y b (out_channels cv)
            (h * stride cv + kernel_size cv - stride cv) (w * stride cv + kernel_size cv - stride cv)"
proof -
  have len: "list_all (\<lambda>img. length img = in_channels cv) x"
    using assms(1) by (auto simp: shape4_def shape3_def list_all_iff)
  have "\<forall>img \<in> set x. shape3 (conv_transpose_image cv img) (out_channels cv)
           (h * stride cv + kernel_size cv - stride cv) (w * stride cv + kernel_size cv - stride cv)"
    using assms conv_transpose_image_shape by (auto simp: shape4_def list_all_iff)
  with len assms(1) show ?thesis
    by (auto simp: ConvTranspose2d_forward_def shape4_def list_all_iff)
qed

lemma act_shape: "shape4 x b c h w \<Longrightarrow> shape4 (map (map (map (map a))) x) b c h w"
  by (auto simp: shape4_def shape3_def shape2_def list_all_iff)

lemma MaskDecoder_init_Some:
  assumes "MaskDecoder_init g nrm td tr nmo act depth hid = Some d"
  shows "\<exists>c1 c2. transformer_dim d = td \<and> transformer d = tr \<and> num_mask_tokens d = nmo + 1
     \<and> 0 \<le> td \<and> 0 \<le> nmo + 1
     \<and> shape2 (emb_weight (iou_token d)) 1 (nat td)
     \<and> shape2 (emb_weight (mask_tokens d)) (nat (nmo + 1)) (nat td)
     \<and> output_upscaling d = [ConvT c1, Norm (nrm (td div 4)), Act act, ConvT c2, Act act]
     \<and> in_channels c1 = nat td \<and> out_channels c1 = nat (td div 4)
     \<and> kernel_size c1 = 2 \<and> stride c1 = 2
     \<and> in_channels c2 = nat (td div 4) \<and> out_channels c2 = nat (td div 8)
     \<and> kernel_size c2 = 2 \<and> stride c2 = 2
     \<and> length (output_hypernetworks_mlps d) = nat (nmo + 1)
     \<and> (\<forall>i < nat (nmo + 1). MLP_init (sub (sub g 4) i) td td (td div 8) 3 False
                                 = Some (output_hypernetworks_mlps d ! i))
     \<and> MLP_init (sub g 5) td hid (nmo + 1) depth False = Some (iou_prediction_head d)"
proof -
  from assms obtain it mt c1 c2 mlps ih where
    it: "nn_Embedding (sub g 0) 1 td = Some it" and
    mt: "nn_Embedding (sub g 1) (nmo + 1) td = Some mt" and
    c1: "nn_ConvTranspose2d (sub g 2) td (td div 4) 2 2 = Some c1" and
    c2: "nn_ConvTranspose2d (sub g 3) (td div 4) (td div 8) 2 2 = Some c2" and
    mlps: "those (map (\<lambda>i. MLP_init (sub (sub g 4) i) td td (td div 8) 3 False)
                          [0..<nat (nmo + 1)]) = Some mlps" and
    ih: "MLP_init (sub g 5) td hid (nmo + 1) depth False = Some ih" and
    d: "d = \<lparr>transformer_dim = td, transformer = tr, num_multimask_outputs = nmo,
             iou_token = it, num_mask_tokens = nmo + 1, mask_tokens = mt,
             output_upscaling =
               [ConvT c1, Norm (nrm (td div 4)), Act act, ConvT c2, Act act],
             output_hypernetworks_mlps = mlps, iou_prediction_head = ih\<rparr>"
    by (auto simp: MaskDecoder_init_def Let_def split: bind_splits)
  from mlps have m: "length mlps = nat (nmo + 1)"
     "\<forall>i < nat (nmo + 1). MLP_init (sub (sub g 4) i) td td (td div 8) 3 False = Some (mlps ! i)"
    unfolding those_map_upt by auto
  from nn_Embedding_Some[OF it] nn_Embedding_Some[OF mt]
    nn_ConvTranspose2d_Some[OF c1] nn_ConvTranspose2d_Some[OF c2] m ih d
  show ?thesis by simp
qed

lemma MaskDecoder_init_ok:
  assumes "0 \<le> td" "- 1 \<le> nmo" "1 < depth \<longrightarrow> 0 \<le> hid"
  shows "\<exists>d. MaskDecoder_init g nrm td tr nmo act depth hid = Some d"
proof -
  have d4: "0 \<le> td div 4" and d8: "0 \<le> td div 8" using assms(1) by simp_all
  have n: "0 \<le> nmo + 1" using assms(2) by simp
  obtain it where it: "nn_Embedding (sub g 0) 1 td = Some it"
    using nn_Embedding_ok[of 1 td] assms(1) by auto
  obtain mt where mt: "nn_Embedding (sub g 1) (nmo + 1) td = Some mt"
    using nn_Embedding_ok[OF n assms(1)] by auto
  obtain c1 where c1: "nn_ConvTranspose2d (sub g 2) td (td div 4) 2 2 = Some c1"
    using nn_ConvTranspose2d_ok[OF assms(1) d4] by blast
  obtain c2 where c2: "nn_ConvTranspose2d (sub g 3) (td div 4) (td div 8) 2 2 = Some c2"
    using nn_ConvTranspose2d_ok[OF d4 d8] by blast
  have "\<forall>i < nat (nmo + 1). \<exists>m. MLP_init (sub (sub g 4) i) td td (td div 8) 3 False = Some m"
    using MLP_init_ok[OF assms(1) d8, of 3 td] assms(1) by simp
  from those_map_upt_ok[OF this] obtain mlps where
    mlps: "those (map (\<lambda>i. MLP_init (sub (sub g 4) i) td td (td div 8) 3 False)
                          [0..<nat (nmo + 1)]) = Some mlps" by blast
  obtain ih where ih: "MLP_init (sub g 5) td hid (nmo + 1) depth False = Some ih"
    using MLP_init_ok[OF assms(1) n assms(3)] by blast
  from it mt c1 c2 mlps ih show ?thesis
    by (simp add: MaskDecoder_init_def Let_def)
qed


lemma upscaling_shape:
  assumes d: "MaskDecoder_init g nrm td tr nmo act depth hid = Some d"
    and nrm: "keeps_shape (nrm (td div 4)) (nat (td div 4))"
    and x: "shape4 x b (nat td) h w" and h: "1 \<le> h"
  shows "\<exists>y. Sequential_forward (output_upscaling d) x = Some y
              \<and> shape4 y b (nat (td div 8)) (4 * h) (4 * w)"
proof -
  from MaskDecoder_init_Some[OF d] obtain c1 c2 where
    up: "output_upscaling d = [ConvT c1, Norm (nrm (td div 4)), Act act, ConvT c2, Act act]" and
    c1: "in_channels c1 = nat td" "out_channels c1 = nat (td div 4)" "kernel_size c1 = 2" "stride c1 = 2" and
    c2: "in_channels c2 = nat (td div 4)" "out_channels c2 = nat (td div 8)" "kernel_size c2 = 2" "stride c2 = 2"
    and td: "0 \<le> td"
    by blast
  have g1: "(0 < in_channels c1 \<and> 0 < h) \<or> out_channels c1 = 0"
    using c1 h td by (cases "td = 0") auto
  from ConvTranspose2d_forward_shape[OF _ g1, of x b w] x c1
  obtain y1 where y1: "ConvTranspose2d_forward c1 x = Some y1"
    "shape4 y1 b (nat (td div 4)) (2 * h) (2 * w)" by (auto simp: mult.commute)
  from nrm y1(2) have y2: "shape4 (nrm (td div 4) y1) b (nat (td div 4)) (2 * h) (2 * w)"
    by (simp add: keeps_shape_def)
  let ?y3 = "map (map (map (map act))) (nrm (td div 4) y1)"
  have y3: "shape4 ?y3 b (in_channels c2) (2 * h) (2 * w)"
    using act_shape[OF y2] c2 by simp
  have g2: "(0 < in_channels c2 \<and> 0 < 2 * h) \<or> out_channels c2 = 0"
  proof (cases "td div 4 = 0")
    case True
    then have "td div 8 = 0" using td by simp
    with c2 show ?thesis by simp
  next
    case False
    with td have "0 < td div 4" by (simp add: order_less_le)
    with c2 h show ?thesis by simp
  qed
  from ConvTranspose2d_forward_shape[OF y3 g2] c2
  obtain y4 where y4: "ConvTranspose2d_forward c2 ?y3 = Some y4"
    "shape4 y4 b (nat (td div 8)) (4 * h) (4 * w)" by (auto simp: mult.commute)
  from up y1 y4 act_shape[OF y4(2)] show ?thesis by simp
qed

section \<open>The tensor operations of \<^verbatim>\<open>predict_masks\<close>\<close>

lemma those_map_ok:
  "(\<forall>x \<in> set xs. \<exists>y. f x = Some y \<and> P y) \<Longrightarrow>
   \<exists>ys. those (map f xs) = Some ys \<and> length ys = length xs \<and> list_all P ys"
proof (induction xs)
  case Nil
  then show ?case by simp
next
  case (Cons x xs)
  then obtain y ys where "f x = Some y" "P y" "those (map f xs) = Some ys"
    "length ys = length xs" "list_all P ys" by auto
  then show ?case by simp
qed

lemma broadcast2_ok:
  assumes len: "length ys = length xs \<or> length ys = 1"
    and f: "\<forall>x \<in> set xs. \<forall>y \<in> set ys. \<exists>z. f x y = Some z \<and> P z"
  shows "\<exists>zs. broadcast2 f xs ys = Some zs \<and> length zs = length xs \<and> list_all P zs"
proof (cases "length xs = length ys")
  case True
  have "\<forall>p \<in> set (zip xs ys). \<exists>z. (\<lambda>(x, y). f x y) p = Some z \<and> P z"
    using f by (auto dest: set_zip_leftD set_zip_rightD)
  from those_map_ok[OF this] True show ?thesis by (auto simp: broadcast2_def)
next
  case False
  with len have one: "length ys = 1" "length xs \<noteq> 1" by auto
  then obtain y where ys: "ys = [y]" by (cases ys) auto
  have "\<forall>x \<in> set xs. \<exists>z. f x (hd ys) = Some z \<and> P z" using f ys by simp
  from those_map_ok[OF this] False one show ?thesis by (auto simp: broadcast2_def)
qed

lemma add4_shape:
  assumes a: "shape4 a b c h w" and d: "shape4 d bd c h w" and bd: "bd = b \<or> bd = 1"
  shows "\<exists>s. add4 a d = Some s \<and> shape4 s b c h w"
proof -
  let ?f0 = "\<lambda>(x::real) y. Some (x + y)"
  have l1: "\<exists>z. broadcast2 ?f0 r1 r2 = Some z \<and> length z = w"
    if "length r1 = w" "length r2 = w" for r1 r2
    using broadcast2_ok[of r2 r1 ?f0 "\<lambda>_. True"] that by auto
  have l2: "\<exists>z. broadcast2 (broadcast2 ?f0) m1 m2 = Some z \<and> shape2 z h w"
    if "shape2 m1 h w" "shape2 m2 h w" for m1 m2
  proof -
    have "\<forall>x \<in> set m1. \<forall>y \<in> set m2. \<exists>z. broadcast2 ?f0 x y = Some z \<and> length z = w"
      using that l1 by (auto simp: shape2_def list_all_iff)
    from broadcast2_ok[OF _ this] that show ?thesis by (auto simp: shape2_def)
  qed
  have l3: "\<exists>z. broadcast2 (broadcast2 (broadcast2 ?f0)) t1 t2 = Some z \<and> shape3 z c h w"
    if "shape3 t1 c h w" "shape3 t2 c h w" for t1 t2
  proof -
    have "\<forall>x \<in> set t1. \<forall>y \<in> set t2. \<exists>z. broadcast2 (broadcast2 ?f0) x y = Some z \<and> shape2 z h w"
      using that l2 by (auto simp: shape3_def list_all_iff)
    from broadcast2_ok[OF _ this] that show ?thesis by (auto simp: shape3_def)
  qed
  have "\<forall>x \<in> set a. \<forall>y \<in> set d.
          \<exists>z. broadcast2 (broadcast2 (broadcast2 ?f0)) x y = Some z \<and> shape3 z c h w"
    using a d l3 by (auto simp: shape4_def list_all_iff)
  from broadcast2_ok[OF _ this] a d bd show ?thesis
    by (auto simp: shape4_def add4_def)
qed

lemma uniform_all: "list_all (\<lambda>x. length x = c) rs \<Longrightarrow> uniform rs"
  by (cases rs) (auto simp: uniform_def list_all_iff)

lemma map2_replicate_left:
  "length ys = n \<Longrightarrow> map2 f (replicate n x) ys = map (f x) ys"
  by (auto simp: list_eq_iff_nth_eq)

lemma cat_dim1_tokens:
  assumes w: "shape2 tw m c" and s: "shape3 sp b n c"
  shows "cat_dim1 (replicate (length sp) tw) sp = Some (map (\<lambda>s. tw @ s) sp)
         \<and> shape3 (map (\<lambda>s. tw @ s) sp) b (m + n) c"
proof -
  have "list_all (\<lambda>x. length x = c) (concat (replicate (length sp) tw) @ concat sp)"
    using w s by (auto simp: shape2_def shape3_def list_all_iff)
  from uniform_all[OF this] have "cat_dim1 (replicate (length sp) tw) sp = Some (map (\<lambda>s. tw @ s) sp)"
    by (simp add: cat_dim1_def map2_replicate_left)
  moreover have "shape3 (map (\<lambda>s. tw @ s) sp) b (m + n) c"
    using w s by (auto simp: shape2_def shape3_def list_all_iff)
  ultimately show ?thesis by simp
qed

lemma repeat_interleave_single:
  "shape4 x 1 c h w \<Longrightarrow> shape4 (repeat_interleave x n) n c h w
     \<and> repeat_interleave x n = replicate n (x ! 0)"
proof -
  assume a: "shape4 x 1 c h w"
  then obtain i where "x = [i]" by (cases x) (auto simp: shape4_def)
  with a show ?thesis by (auto simp: repeat_interleave_def shape4_def list_all_iff)
qed


lemma shape4_sizes:
  assumes "shape4 t b c h w" "0 < b" "0 < c" "0 < h"
  shows "length t = b \<and> size1 t = c \<and> size2 t = h \<and> size3 t = w"
proof -
  from assms obtain i rest where t: "t = i # rest" by (cases t) (auto simp: shape4_def)
  with assms have i: "shape3 i c h w" by (simp add: shape4_def)
  from shape3_sizes[OF i assms(3,4)] i t assms(1) show ?thesis
    by (simp add: size1_def size2_def size3_def shape4_def shape3_def)
qed

lemma index_dim1_ok:
  assumes "shape3 t b n c" "i < n"
  shows "index_dim1 t i = Some (map (\<lambda>m. m ! i) t) \<and> shape2 (map (\<lambda>m. m ! i) t) b c"
  using assms by (auto simp: index_dim1_def shape3_def shape2_def list_all_iff)

lemma slice_row:
  assumes "shape2 t (1 + m + n) c"
  shows "shape2 (py_slice 1 (Some (1 + m)) t) m c"
proof -
  have "set (take m (drop 1 t)) \<subseteq> set t"
    using set_take_subset[of m "drop 1 t"] set_drop_subset[of 1 t] by blast
  with assms show ?thesis
    by (simp add: py_slice_def shape2_def list_all_iff subset_iff)
qed

lemma slice_row_nth:
  assumes "shape2 t (1 + m + n) c" "i < m"
  shows "py_slice 1 (Some (1 + m)) t ! i = t ! (1 + i)"
  using assms by (simp add: py_slice_def shape2_def)

lemma slice_tokens:
  assumes "shape3 hs b (1 + m + n) c"
  shows "shape3 (map (py_slice 1 (Some (1 + m))) hs) b m c"
  using assms slice_row[of _ m n c] by (auto simp: shape3_def list_all_iff)

lemma slice_tokens_nth:
  assumes "shape3 hs b (1 + m + n) c" "i < m"
  shows "map (\<lambda>t. t ! i) (map (py_slice 1 (Some (1 + m))) hs) = map (\<lambda>t. t ! (1 + i)) hs"
  using assms slice_row_nth[of _ m n c i] by (auto simp: shape3_def list_all_iff)

lemma transpose2_shape:
  assumes "shape2 m r c" "0 < r"
  shows "shape2 (transpose2 m) c r"
proof -
  from assms obtain x xs where "m = x # xs" by (cases m) (auto simp: shape2_def)
  with assms have "size1 m = c" by (simp add: size1_def shape2_def)
  then show ?thesis using assms by (simp add: transpose2_def shape2_def list_all_iff)
qed

lemma shape3_map:
  "shape3 t b c h \<Longrightarrow> (\<And>m. shape2 m c h \<Longrightarrow> shape2 (f m) c' h') \<Longrightarrow> shape3 (map f t) b c' h'"
  by (auto simp: shape3_def list_all_iff)

lemma shape4_map:
  "shape4 t b c h w \<Longrightarrow> (\<And>m. shape3 m c h w \<Longrightarrow> shape3 (f m) c' h' w') \<Longrightarrow>
   shape4 (map f t) b c' h' w'"
  by (auto simp: shape4_def list_all_iff)

lemma shape34_map:
  "shape3 t b c h \<Longrightarrow> (\<And>m. shape2 m c h \<Longrightarrow> shape3 (f m) c' h' w') \<Longrightarrow>
   shape4 (map f t) b c' h' w'"
  by (auto simp: shape4_def shape3_def list_all_iff)

lemma chunk_rows_shape:
  assumes "shape2 m c (h * w)" "0 < w"
  shows "shape3 (map (chunk w) m) c h w"
proof -
  have len: "length m = c" and rows: "\<And>r. r \<in> set m \<Longrightarrow> length r = h * w"
    using assms(1) by (simp_all add: shape2_def list_all_iff)
  have "\<And>r. r \<in> set m \<Longrightarrow> shape2 (chunk w r) h w"
    using chunk_shape[OF assms(2)] rows by blast
  then have "list_all (\<lambda>x. shape2 x h w) (map (chunk w) m)"
    unfolding list_all_iff by auto
  with len show ?thesis unfolding shape3_def by simp
qed

lemma view4_ok:
  assumes s: "shape3 s b (h * w) c" and pos: "0 < h" "0 < w"
  shows "\<exists>v. view4 (map transpose2 s) b c h w = Some v \<and> shape4 v b c h w"
proof -
  have hw: "0 < h * w" using pos by simp
  have t: "shape3 (map transpose2 s) b c (h * w)"
    by (rule shape3_map[OF s]) (rule transpose2_shape[OF _ hw])
  have "shape4 (map (map (chunk w)) (map transpose2 s)) b c h w"
    by (rule shape34_map[OF t]) (rule chunk_rows_shape[OF _ pos(2)])
  with t show ?thesis unfolding view4_def by simp
qed

section \<open>Hypernetworks, stacking and the matrix product\<close>

lemma MLP_loop_shape:
  "chain ls a b \<Longrightarrow> shape2 x r a \<Longrightarrow>
   \<exists>y. MLP_loop n (enumerate j ls) x = Some y \<and> shape2 y r b"
proof (induction ls arbitrary: j x a)
  case Nil
  then show ?case by simp
next
  case (Cons l ls)
  from Cons.prems obtain y where y: "Linear_forward l x = Some y" "shape2 y r (out_features l)"
    using Linear_forward_shape[of l x r] by auto
  have y': "shape2 (if int j < n - 1 then map (map relu) y else y) r (out_features l)"
    using y(2) by (simp add: shape2_def list_all_iff)
  from Cons.prems have "chain ls (out_features l) b" by simp
  from Cons.IH[OF this y', of "Suc j"] y(1) show ?case by simp
qed

lemma MLP_forward_shape_any:
  assumes m: "MLP_init g a h b n sg = Some m" and x: "shape2 x r (nat a)"
  shows "\<exists>y. MLP_forward m x = Some y \<and> shape2 y r (nat b)"
proof -
  from MLP_init_Some[OF m] have "chain (layers m) (nat a) (nat b)" by simp
  from MLP_loop_shape[OF this x, of "num_layers m" 0] obtain y where
    y: "MLP_loop (num_layers m) (enumerate 0 (layers m)) x = Some y" "shape2 y r (nat b)" by blast
  have "shape2 (map (map sigmoid) y) r (nat b)" using y(2) by (simp add: shape2_def list_all_iff)
  with y show ?thesis by (simp add: MLP_forward_def)
qed

lemma hyper_in_list_ok:
  assumes mlps: "\<forall>i<M. MLP_init (gi i) td td (td div 8) 3 False = Some (mlps ! i)"
    and hs: "shape3 hs b (1 + M + n) (nat td)"
  shows "\<exists>hl. those (map (\<lambda>i. do {
                    t \<leftarrow> index_dim1 (map (py_slice 1 (Some (1 + M))) hs) i;
                    MLP_forward (mlps ! i) t }) [0..<M]) = Some hl
           \<and> length hl = M
           \<and> (\<forall>i<M. MLP_forward (mlps ! i) (map (\<lambda>t. t ! (1 + i)) hs) = Some (hl ! i)
                     \<and> shape2 (hl ! i) b (nat (td div 8)))"
proof -
  let ?mt = "map (py_slice 1 (Some (1 + M))) hs"
  let ?f = "\<lambda>i. do { t \<leftarrow> index_dim1 ?mt i; MLP_forward (mlps ! i) t }"
  let ?hl = "map (\<lambda>i. the (MLP_forward (mlps ! i) (map (\<lambda>t. t ! (1 + i)) hs))) [0..<M]"
  have step: "?f i = MLP_forward (mlps ! i) (map (\<lambda>t. t ! (1 + i)) hs)
        \<and> (\<exists>y. MLP_forward (mlps ! i) (map (\<lambda>t. t ! (1 + i)) hs) = Some y
                 \<and> shape2 y b (nat (td div 8)))" if i: "i < M" for i
  proof -
    have e: "map (\<lambda>t. t ! i) ?mt = map (\<lambda>t. t ! (1 + i)) hs"
      by (rule slice_tokens_nth[OF hs i])
    have ix: "index_dim1 ?mt i = Some (map (\<lambda>t. t ! (1 + i)) hs)"
      and sh: "shape2 (map (\<lambda>t. t ! (1 + i)) hs) b (nat td)"
      using index_dim1_ok[OF slice_tokens[OF hs] i] unfolding e by blast+
    from mlps i have "MLP_init (gi i) td td (td div 8) 3 False = Some (mlps ! i)" by simp
    from MLP_forward_shape_any[OF this sh] ix show ?thesis by simp
  qed
  have val: "MLP_forward (mlps ! i) (map (\<lambda>t. t ! (1 + i)) hs) = Some (?hl ! i)
              \<and> shape2 (?hl ! i) b (nat (td div 8))" if i: "i < M" for i
  proof -
    from step[OF i] obtain y where
      "MLP_forward (mlps ! i) (map (\<lambda>t. t ! (1 + i)) hs) = Some y" "shape2 y b (nat (td div 8))"
      by blast
    with i show ?thesis by simp
  qed
  have "?f i = Some (?hl ! i)" if i: "i < M" for i
    using step[OF i] val[OF i] by simp
  then have "those (map ?f [0..<M]) = Some ?hl"
    unfolding those_map_upt by simp
  moreover have "length ?hl = M" by simp
  moreover have "\<forall>i<M. MLP_forward (mlps ! i) (map (\<lambda>t. t ! (1 + i)) hs) = Some (?hl ! i)
                     \<and> shape2 (?hl ! i) b (nat (td div 8))"
    using val by blast
  ultimately show ?thesis by blast
qed

lemma stack_dim1_ok:
  assumes ne: "hl \<noteq> []" and sh: "\<forall>u \<in> set hl. shape2 u b c"
  shows "stack_dim1 hl = Some (map (\<lambda>j. map (\<lambda>u. u ! j) hl) [0..<b])
         \<and> shape3 (map (\<lambda>j. map (\<lambda>u. u ! j) hl) [0..<b]) b (length hl) c"
proof -
  from ne obtain t rest where hl: "hl = t # rest" by (cases hl) auto
  have lens: "list_all (\<lambda>u. length u = length t) hl" and lt: "length t = b"
    using sh hl by (auto simp: shape2_def list_all_iff)
  have "list_all (\<lambda>x. length x = c) (concat hl)"
    using sh by (auto simp: shape2_def list_all_iff)
  from uniform_all[OF this] lens lt hl
  have st: "stack_dim1 hl = Some (map (\<lambda>j. map (\<lambda>u. u ! j) hl) [0..<b])"
    by (simp add: stack_dim1_def)
  have "\<forall>j<b. shape2 (map (\<lambda>u. u ! j) hl) (length hl) c"
    using sh by (auto simp: shape2_def list_all_iff)
  then have "shape3 (map (\<lambda>j. map (\<lambda>u. u ! j) hl) [0..<b]) b (length hl) c"
    by (simp add: shape3_def list_all_iff)
  with st show ?thesis by simp
qed

lemma shape2_size1: "shape2 m k p \<Longrightarrow> 0 < k \<Longrightarrow> size1 m = p"
  by (cases m) (auto simp: shape2_def size1_def)

lemma matmul2_ok:
  assumes a: "shape2 a m k" and bm: "shape2 bm k p" and k: "0 < k"
  shows "matmul2 a bm = Some (map (\<lambda>r. map (\<lambda>j. dot r (map (\<lambda>br. br ! j) bm)) [0..<p]) a)"
proof -
  have "list_all (\<lambda>r. length r = length bm) a"
    using a bm by (simp add: shape2_def)
  with shape2_size1[OF bm k] show ?thesis by (simp add: matmul2_def)
qed

lemma matmul_ok:
  assumes hy: "shape3 hy b m k" and fl: "shape3 fl b k p" and k: "0 < k"
  shows "\<exists>mm. matmul hy fl = Some mm \<and> shape3 mm b m p
          \<and> (\<forall>bi<b. \<forall>i<m. \<forall>j<p. mm ! bi ! i ! j = dot (hy ! bi ! i) (map (\<lambda>r. r ! j) (fl ! bi)))"
proof -
  let ?g = "\<lambda>a bm. map (\<lambda>r. map (\<lambda>j. dot r (map (\<lambda>br. br ! j) bm)) [0..<p]) a"
  let ?mm = "map2 ?g hy fl"
  have len: "length hy = b" "length fl = b" using hy fl by (simp_all add: shape3_def)
  have el: "shape2 (hy ! bi) m k \<and> shape2 (fl ! bi) k p" if "bi < b" for bi
    using hy fl that len by (simp add: shape3_def list_all_length)
  have "matmul2 (hy ! bi) (fl ! bi) = Some (?g (hy ! bi) (fl ! bi))" if "bi < b" for bi
    using el[OF that] matmul2_ok[OF _ _ k, of "hy ! bi" m "fl ! bi" p] by blast
  then have "map2 matmul2 hy fl = map Some ?mm"
    using len by (simp add: list_eq_iff_nth_eq)
  then have mm: "matmul hy fl = Some ?mm"
    using len by (simp add: matmul_def broadcast2_def those_eq_Some)
  have "\<forall>bi<b. shape2 (?mm ! bi) m p"
    using len el by (auto simp: shape2_def list_all_iff)
  then have sh: "shape3 ?mm b m p"
    using len by (simp add: shape3_def list_all_length)
  have "\<forall>bi<b. \<forall>i<m. \<forall>j<p. ?mm ! bi ! i ! j = dot (hy ! bi ! i) (map (\<lambda>r. r ! j) (fl ! bi))"
    using len el by (auto simp: shape2_def)
  with mm sh show ?thesis by blast
qed

lemma flatten_shape:
  assumes "shape4 up b k h w"
  shows "shape3 (map (map concat) up) b k (h * w)"
proof -
  have "shape2 (map concat i) k (h * w)" if "shape3 i k h w" for i
  proof -
    have "length (concat ch) = h * w" if "ch \<in> set i" for ch
    proof -
      from \<open>shape3 i k h w\<close> that have "length ch = h" "list_all (\<lambda>r. length r = w) ch"
        by (simp_all add: shape3_def shape2_def list_all_iff)
      with length_concat_uniform[of w ch] show ?thesis by simp
    qed
    with that show ?thesis by (simp add: shape3_def shape2_def list_all_iff)
  qed
  with assms show ?thesis by (auto simp: shape4_def shape3_def list_all_iff)
qed

lemma dot_sum:
  assumes "length u = n" "length v = n"
  shows "dot u v = (\<Sum>i<n. u ! i * v ! i)"
proof -
  have "dot u v = (\<Sum>i = 0..<length (map2 (*) u v). map2 (*) u v ! i)"
    unfolding dot_def by (rule sum_list_sum_nth)
  also have "\<dots> = (\<Sum>i<n. u ! i * v ! i)"
    using assms by (simp add: atLeast0LessThan)
  finally show ?thesis .
qed

lemma shape2_append:
  "shape2 a m c \<Longrightarrow> shape2 b n c \<Longrightarrow> shape2 (a @ b) (m + n) c"
  by (simp add: shape2_def)

lemma index_lt_mult:
  assumes "y < (h::nat)" "x < w"
  shows "y * w + x < h * w"
proof -
  have "y * w + x < y * w + w" using assms(2) by simp
  also have "\<dots> = Suc y * w" by simp
  also have "\<dots> \<le> h * w" using assms(1) by (intro mult_le_mono1) simp
  finally show ?thesis .
qed

lemma shape3_nth: "shape3 t b m c \<Longrightarrow> i < b \<Longrightarrow> shape2 (t ! i) m c"
  by (simp add: shape3_def list_all_length)

lemma shape4_nth: "shape4 t b k h w \<Longrightarrow> i < b \<Longrightarrow> shape3 (t ! i) k h w"
  by (simp add: shape4_def list_all_length)

lemma shape2_nth: "shape2 t m c \<Longrightarrow> i < m \<Longrightarrow> length (t ! i) = c"
  by (simp add: shape2_def list_all_length)

lemma mask_entry:
  assumes hy: "shape3 hyper b m k" and up: "shape4 up b k h w"
    and mm: "shape3 mm b m (h * w)"
    and mmv: "\<forall>bi<b. \<forall>i<m. \<forall>j<h * w.
               mm ! bi ! i ! j = dot (hyper ! bi ! i) (map (\<lambda>r. r ! j) (map concat (up ! bi)))"
    and w: "0 < w" and idx: "bi < b" "i < m" "y < h" "x < w"
  shows "map (map (chunk w)) mm ! bi ! i ! y ! x = (\<Sum>kk<k. hyper ! bi ! i ! kk * up ! bi ! kk ! y ! x)"
proof -
  have lb: "length mm = b" using mm by (simp add: shape3_def)
  have mb: "shape2 (mm ! bi) m (h * w)" using shape3_nth[OF mm idx(1)] .
  then have lm: "length (mm ! bi) = m" by (simp add: shape2_def)
  have lrow: "length (mm ! bi ! i) = h * w" using shape2_nth[OF mb idx(2)] .
  have j: "y * w + x < h * w" using index_lt_mult[OF idx(3,4)] .
  have "map (map (chunk w)) mm ! bi ! i ! y ! x = chunk w (mm ! bi ! i) ! y ! x"
    using lb lm idx by simp
  also have "\<dots> = mm ! bi ! i ! (y * w + x)"
    using chunk_nth[OF w lrow idx(3,4)] .
  also have "\<dots> = dot (hyper ! bi ! i) (map (\<lambda>r. r ! (y * w + x)) (map concat (up ! bi)))"
    using mmv idx j by simp
  also have "\<dots> = (\<Sum>kk<k. hyper ! bi ! i ! kk * up ! bi ! kk ! y ! x)"
  proof -
    have ub: "shape3 (up ! bi) k h w" using shape4_nth[OF up idx(1)] .
    then have lu: "length (up ! bi) = k" by (simp add: shape3_def)
    have lh: "length (hyper ! bi ! i) = k"
      using shape2_nth[OF shape3_nth[OF hy idx(1)] idx(2)] .
    have e: "map (\<lambda>r. r ! (y * w + x)) (map concat (up ! bi)) ! kk = up ! bi ! kk ! y ! x"
      if "kk < k" for kk
    proof -
      have "shape2 (up ! bi ! kk) h w" using ub that by (simp add: shape3_def list_all_length)
      then have "list_all (\<lambda>r. length r = w) (up ! bi ! kk)" "y < length (up ! bi ! kk)"
        using idx(3) by (simp_all add: shape2_def)
      from concat_nth_uniform[OF this idx(4)] lu that show ?thesis by simp
    qed
    have "dot (hyper ! bi ! i) (map (\<lambda>r. r ! (y * w + x)) (map concat (up ! bi)))
          = (\<Sum>kk<k. hyper ! bi ! i ! kk * map (\<lambda>r. r ! (y * w + x)) (map concat (up ! bi)) ! kk)"
      by (rule dot_sum[OF lh]) (simp add: lu)
    also have "\<dots> = (\<Sum>kk<k. hyper ! bi ! i ! kk * up ! bi ! kk ! y ! x)"
      using e by simp
    finally show ?thesis .
  qed
  finally show ?thesis .
qed

section \<open>A run of \<^verbatim>\<open>predict_masks\<close> on a well-formed call\<close>

lemma predict_masks_run:
  assumes d: "MaskDecoder_init g nrm td tr nmo act depth hid = Some d"
    and td: "8 \<le> td" and nmo: "0 \<le> nmo"
    and nrm: "keeps_shape (nrm (td div 4)) (nat (td div 4))"
    and tr: "transformer_contract tr B (nat td) H W (1 + nat (nmo + 1) + N)"
    and img: "shape4 img 1 (nat td) H W" and pe: "shape4 pe 1 (nat td) H W"
    and sp: "shape3 sp B N (nat td)"
    and dn: "shape4 dn Bd (nat td) H W" and bd: "Bd = B \<or> Bd = 1"
    and pos: "1 \<le> B" "1 \<le> H" "1 \<le> W"
  obtains src hs src2 srcv up hyper masks iou where
      "add4 (repeat_interleave img B) dn = Some src"
      "shape4 src B (nat td) H W"
      "shape3 (map (\<lambda>s. (emb_weight (iou_token d) @ emb_weight (mask_tokens d)) @ s) sp)
         B (1 + nat (nmo + 1) + N) (nat td)"
      "transformer d src (repeat_interleave pe B)
         (map (\<lambda>s. (emb_weight (iou_token d) @ emb_weight (mask_tokens d)) @ s) sp) = (hs, src2)"
      "shape3 hs B (1 + nat (nmo + 1) + N) (nat td)"
      "view4 (map transpose2 src2) B (nat td) H W = Some srcv"
      "Sequential_forward (output_upscaling d) srcv = Some up"
      "shape4 up B (nat (td div 8)) (4 * H) (4 * W)"
      "shape3 hyper B (nat (nmo + 1)) (nat (td div 8))"
      "\<forall>i<nat (nmo + 1). MLP_forward (output_hypernetworks_mlps d ! i) (map (\<lambda>t. t ! (1 + i)) hs)
                            = Some (map (\<lambda>hb. hb ! i) hyper)"
      "MLP_forward (iou_prediction_head d) (map (\<lambda>t. t ! 0) hs) = Some iou"
      "shape2 iou B (nat (nmo + 1))"
      "shape4 masks B (nat (nmo + 1)) (4 * H) (4 * W)"
      "\<forall>b<B. \<forall>i<nat (nmo + 1). \<forall>y<4 * H. \<forall>x<4 * W.
          masks ! b ! i ! y ! x = (\<Sum>k<nat (td div 8). hyper ! b ! i ! k * up ! b ! k ! y ! x)"
      "predict_masks d img pe sp dn = Some (masks, iou)"
proof -
  let ?c = "nat td" and ?M = "nat (nmo + 1)" and ?c8 = "nat (td div 8)"
  let ?tw = "emb_weight (iou_token d) @ emb_weight (mask_tokens d)"
  let ?tokens = "map (\<lambda>s. ?tw @ s) sp"
  let ?pos = "repeat_interleave pe B"
  from MaskDecoder_init_Some[OF d] have
    trd: "transformer d = tr" and nmt: "num_mask_tokens d = nmo + 1" and
    iw: "shape2 (emb_weight (iou_token d)) 1 ?c" and
    mw: "shape2 (emb_weight (mask_tokens d)) ?M ?c" and
    lm: "length (output_hypernetworks_mlps d) = ?M" and
    mlps: "\<forall>i < ?M. MLP_init (sub (sub g 4) i) td td (td div 8) 3 False
                                 = Some (output_hypernetworks_mlps d ! i)" and
    head: "MLP_init (sub g 5) td hid (nmo + 1) depth False = Some (iou_prediction_head d)"
    by auto
  have cpos: "0 < ?c" "0 < ?c8" "0 < ?M" "0 < B" "0 < H" "0 < W" "0 < 4 * H" "0 < 4 * W"
    using td nmo pos by auto
  \<comment> \<open>tokens\<close>
  have tw: "shape2 ?tw (1 + ?M) ?c" using shape2_append[OF iw mw] .
  from cat_dim1_tokens[OF tw sp] have
    cat: "cat_dim1 (replicate (length sp) ?tw) sp = Some ?tokens" and
    tsh: "shape3 ?tokens B (1 + ?M + N) ?c" by simp_all
  have lt: "length ?tokens = B" using tsh by (simp add: shape3_def)
  \<comment> \<open>source and positional encoding\<close>
  from repeat_interleave_single[OF img] have ri: "shape4 (repeat_interleave img B) B ?c H W" by blast
  from repeat_interleave_single[OF pe] have psh: "shape4 ?pos B ?c H W" by blast
  from add4_shape[OF ri dn bd] obtain src where
    src: "add4 (repeat_interleave img B) dn = Some src" and ssh: "shape4 src B ?c H W" by blast
  from shape4_sizes[OF ssh cpos(4) cpos(1) cpos(5)] have
    sz: "length src = B" "size1 src = ?c" "size2 src = H" "size3 src = W" by simp_all
  \<comment> \<open>the transformer\<close>
  obtain hs src2 where T: "tr src ?pos ?tokens = (hs, src2)" by (cases "tr src ?pos ?tokens")
  from tr ssh psh tsh T have hsh: "shape3 hs B (1 + ?M + N) ?c" and s2: "shape3 src2 B (H * W) ?c"
    unfolding transformer_contract_def by (metis fst_conv, metis snd_conv)
  have ix0: "index_dim1 hs 0 = Some (map (\<lambda>t. t ! 0) hs)"
    and i0sh: "shape2 (map (\<lambda>t. t ! 0) hs) B ?c"
    using index_dim1_ok[OF hsh, of 0] by simp_all
  \<comment> \<open>upscaling\<close>
  from view4_ok[OF s2 cpos(5) cpos(6)] obtain srcv where
    sv: "view4 (map transpose2 src2) B ?c H W = Some srcv" and svs: "shape4 srcv B ?c H W" by blast
  from upscaling_shape[OF d nrm svs pos(2)] obtain up where
    up: "Sequential_forward (output_upscaling d) srcv = Some up"
    and ups: "shape4 up B ?c8 (4 * H) (4 * W)" by blast
  from shape4_sizes[OF ups cpos(4) cpos(2) cpos(7)] have
    usz: "length up = B" "size1 up = ?c8" "size2 up = 4 * H" "size3 up = 4 * W" by simp_all
  \<comment> \<open>hypernetworks\<close>
  from hyper_in_list_ok[OF mlps hsh] obtain hl where
    hl: "those (map (\<lambda>i. do {
                    t \<leftarrow> index_dim1 (map (py_slice 1 (Some (1 + ?M))) hs) i;
                    MLP_forward (output_hypernetworks_mlps d ! i) t }) [0..<?M]) = Some hl"
    and lhl: "length hl = ?M"
    and hlv: "\<forall>i<?M. MLP_forward (output_hypernetworks_mlps d ! i) (map (\<lambda>t. t ! (1 + i)) hs)
                       = Some (hl ! i) \<and> shape2 (hl ! i) B ?c8" by blast
  let ?hyper = "map (\<lambda>j. map (\<lambda>u. u ! j) hl) [0..<B]"
  have hne: "hl \<noteq> []" using lhl cpos(3) by auto
  have hall: "\<forall>u \<in> set hl. shape2 u B ?c8"
    using hlv lhl by (auto simp: in_set_conv_nth)
  from stack_dim1_ok[OF hne hall] lhl have
    st: "stack_dim1 hl = Some ?hyper" and hys: "shape3 ?hyper B ?M ?c8" by simp_all
  have hcol: "map (\<lambda>hb. hb ! i) ?hyper = hl ! i" if i: "i < ?M" for i
  proof -
    from hlv i have "length (hl ! i) = B" by (simp add: shape2_def)
    then show ?thesis using i lhl by (auto simp: list_eq_iff_nth_eq)
  qed
  \<comment> \<open>the masks\<close>
  have fls: "shape3 (map (map concat) up) B ?c8 (4 * H * (4 * W))"
    using flatten_shape[OF ups] .
  from matmul_ok[OF hys fls cpos(2)] usz(1) obtain mm where
    mm: "matmul ?hyper (map (map concat) up) = Some mm"
    and mms: "shape3 mm B ?M (4 * H * (4 * W))"
    and mmv: "\<forall>bi<B. \<forall>i<?M. \<forall>j<4 * H * (4 * W).
               mm ! bi ! i ! j = dot (?hyper ! bi ! i) (map (\<lambda>r. r ! j) (map concat (up ! bi)))"
    by auto
  let ?masks = "map (map (chunk (4 * W))) mm"
  have vi: "view_infer mm B (4 * H) (4 * W) = Some ?masks"
    using view_infer_rows[OF mms cpos(4) cpos(3) cpos(7) cpos(8)] .
  have mks: "shape4 ?masks B ?M (4 * H) (4 * W)"
    by (rule shape34_map[OF mms]) (rule chunk_rows_shape[OF _ cpos(8)])
  have mkv: "\<forall>b<B. \<forall>i<?M. \<forall>y<4 * H. \<forall>x<4 * W.
          ?masks ! b ! i ! y ! x = (\<Sum>k<?c8. ?hyper ! b ! i ! k * up ! b ! k ! y ! x)"
    using mask_entry[OF hys ups mms mmv cpos(8)] by blast
  \<comment> \<open>the quality scores\<close>
  from MLP_forward_shape_any[OF head i0sh] cpos(3) obtain iou where
    iou: "MLP_forward (iou_prediction_head d) (map (\<lambda>t. t ! 0) hs) = Some iou"
    and ious: "shape2 iou B ?M" using nmo by auto
  \<comment> \<open>the run\<close>
  have run: "predict_masks d img pe sp dn = Some (?masks, iou)"
    unfolding predict_masks_def
    by (simp only: Let_def prod.case cat lt src sz trd T ix0 nmt sv up hl st usz mm vi iou
          Option.bind.simps)
  have hlc: "\<forall>i<?M. MLP_forward (output_hypernetworks_mlps d ! i) (map (\<lambda>t. t ! (1 + i)) hs)
                       = Some (map (\<lambda>hb. hb ! i) ?hyper)"
    using hlv hcol by simp
  have T': "transformer d src ?pos ?tokens = (hs, src2)" using T trd by simp
  show ?thesis
    by (rule that[OF src ssh tsh T' hsh sv up ups hys hlc iou ious mks mkv run])
qed

section \<open>The concrete call and the output selector\<close>

lemma example_decoder_init:
  "MaskDecoder_init example_gen identity_norm 256 flat_transformer 3 relu 3 256 = Some example_decoder"
proof -
  from MaskDecoder_init_ok[of 256 3 3 256 example_gen identity_norm flat_transformer relu]
  obtain d where "MaskDecoder_init example_gen identity_norm 256 flat_transformer 3 relu 3 256 = Some d"
    by auto
  then show ?thesis by (simp add: example_decoder_def)
qed

lemma identity_norm_keeps_shape: "keeps_shape (identity_norm n) c"
  by (simp add: keeps_shape_def identity_norm_def)

lemma shape43_map:
  "shape4 t b c h w \<Longrightarrow> (\<And>m. shape3 m c h w \<Longrightarrow> shape2 (f m) c' h') \<Longrightarrow>
   shape3 (map f t) b c' h'"
  by (auto simp: shape4_def shape3_def list_all_iff)

lemma flatten_image_shape:
  assumes "shape3 i k h w"
  shows "shape2 (map concat i) k (h * w)"
proof -
  have "length (concat ch) = h * w" if "ch \<in> set i" for ch
  proof -
    from assms that have "length ch = h" "list_all (\<lambda>r. length r = w) ch"
      by (simp_all add: shape3_def shape2_def list_all_iff)
    with length_concat_uniform[of w ch] show ?thesis by simp
  qed
  with assms show ?thesis by (simp add: shape3_def shape2_def list_all_iff)
qed

lemma flat_transformer_contract:
  assumes "0 < c"
  shows "transformer_contract flat_transformer b c h w t"
proof -
  have "shape3 (map (\<lambda>img. transpose2 (map concat img)) src) b (h * w) c"
    if "shape4 src b c h w" for src
    by (rule shape43_map[OF that]) (rule transpose2_shape[OF flatten_image_shape assms])
  then show ?thesis by (auto simp: transformer_contract_def flat_transformer_def)
qed

lemma example_shapes:
  "shape4 example_image 1 256 64 64" "shape3 example_sparse 2 2 256"
  "shape4 example_dense 2 256 64 64"
  by (simp_all add: example_image_def example_sparse_def example_dense_def
        shape4_def shape3_def shape2_def list_all_iff)

lemma drop1_slots: "length m = n \<Longrightarrow> py_slice 1 None m = map (\<lambda>k. m ! k) [1..<n]"
  by (auto simp: py_slice_def list_eq_iff_nth_eq)

lemma take1_slot: "length m = n \<Longrightarrow> 0 < n \<Longrightarrow> py_slice 0 (Some 1) m = [m ! 0]"
  by (cases m) (auto simp: py_slice_def)



lemma forward_slices:
  assumes pm: "predict_masks d img pe sp dn = Some (masks, iou)"
    and ms: "shape4 masks b m h w" and qs: "shape2 iou b m" and m: "0 < m"
  shows "forward d img pe sp dn True =
           Some (map (\<lambda>x. map (\<lambda>k. x ! k) [1..<m]) masks, map (\<lambda>q. map (\<lambda>k. q ! k) [1..<m]) iou)"
    and "forward d img pe sp dn False = Some (map (\<lambda>x. [x ! 0]) masks, map (\<lambda>q. [q ! 0]) iou)"
proof -
  have lm: "\<forall>x \<in> set masks. length x = m" using ms by (simp add: shape4_def shape3_def list_all_iff)
  have lq: "\<forall>q \<in> set iou. length q = m" using qs by (simp add: shape2_def list_all_iff)
  have "map (py_slice 1 None) masks = map (\<lambda>x. map (\<lambda>k. x ! k) [1..<m]) masks"
    "map (py_slice 1 None) iou = map (\<lambda>q. map (\<lambda>k. q ! k) [1..<m]) iou"
    using lm lq drop1_slots[of _ m] by auto
  with pm show "forward d img pe sp dn True =
           Some (map (\<lambda>x. map (\<lambda>k. x ! k) [1..<m]) masks, map (\<lambda>q. map (\<lambda>k. q ! k) [1..<m]) iou)"
    by (simp add: forward_def)
  have "map (py_slice 0 (Some 1)) masks = map (\<lambda>x. [x ! 0]) masks"
    "map (py_slice 0 (Some 1)) iou = map (\<lambda>q. [q ! 0]) iou"
    using lm lq take1_slot[OF _ m] by auto
  with pm show "forward d img pe sp dn False = Some (map (\<lambda>x. [x ! 0]) masks, map (\<lambda>q. [q ! 0]) iou)"
    by (simp add: forward_def)
qed


lemma repeat_interleave_nth:
  assumes "i < length xs" "j < n"
  shows "repeat_interleave xs n ! (i * n + j) = xs ! i"
proof -
  have "list_all (\<lambda>r. length r = n) (map (replicate n) xs)" by (simp add: list_all_iff)
  from concat_nth_uniform[OF this _ assms(2), of i] assms show ?thesis
    by (simp add: repeat_interleave_def)
qed



text \<open>
  Claim C1. On a well-formed call (a constructed decoder with \<open>M = num_multimask_outputs + 1\<close>
  mask tokens, one image, \<open>B\<close> prompt instances, a transformer that keeps its contract),
  \<^verbatim>\<open>predict_masks\<close> returns \<open>M\<close> mask slots and \<open>M\<close> scores per instance, and \<^verbatim>\<open>forward\<close>
  returns, of both tensors alike, the slots \<open>1, \<dots>, M - 1\<close> when \<^verbatim>\<open>multimask_output\<close> is
  true and slot \<open>0\<close> alone when it is false; the single mask is slot \<open>0\<close> of the full
  computation.
\<close>

theorem forward_selects_slots:
  assumes d: "MaskDecoder_init g nrm td tr nmo act depth hid = Some d"
    and td: "8 \<le> td" and nmo: "0 \<le> nmo"
    and nrm: "keeps_shape (nrm (td div 4)) (nat (td div 4))"
    and tr: "transformer_contract tr B (nat td) H W (1 + nat (nmo + 1) + N)"
    and img: "shape4 img 1 (nat td) H W" and pe: "shape4 pe 1 (nat td) H W"
    and sp: "shape3 sp B N (nat td)"
    and dn: "shape4 dn Bd (nat td) H W" and bd: "Bd = B \<or> Bd = 1"
    and pos: "1 \<le> B" "1 \<le> H" "1 \<le> W"
  shows "\<exists>masks iou.
      predict_masks d img pe sp dn = Some (masks, iou)
    \<and> shape4 masks B (nat (nmo + 1)) (4 * H) (4 * W) \<and> shape2 iou B (nat (nmo + 1))
    \<and> forward d img pe sp dn True =
         Some (map (\<lambda>m. map (\<lambda>k. m ! k) [1..<nat (nmo + 1)]) masks,
               map (\<lambda>q. map (\<lambda>k. q ! k) [1..<nat (nmo + 1)]) iou)
    \<and> forward d img pe sp dn False = Some (map (\<lambda>m. [m ! 0]) masks, map (\<lambda>q. [q ! 0]) iou)"
proof (rule predict_masks_run[OF d td nmo nrm tr img pe sp dn bd pos])
  fix masks iou
  assume pm: "predict_masks d img pe sp dn = Some (masks, iou)"
    and ms: "shape4 masks B (nat (nmo + 1)) (4 * H) (4 * W)"
    and qs: "shape2 iou B (nat (nmo + 1))"
  have m: "0 < nat (nmo + 1)" using nmo by simp
  from forward_slices[OF pm ms qs m] pm ms qs show ?thesis by blast
qed

theorem forward_selects_slots_witness:
  "MaskDecoder_init example_gen identity_norm 256 flat_transformer 3 relu 3 256 = Some example_decoder
   \<and> keeps_shape (identity_norm 64) 64
   \<and> transformer_contract flat_transformer 2 256 64 64 7
   \<and> shape4 example_image 1 256 64 64 \<and> shape3 example_sparse 2 2 256
   \<and> shape4 example_dense 2 256 64 64
   \<and> (\<exists>masks iou.
        predict_masks example_decoder example_image example_image example_sparse example_dense
          = Some (masks, iou)
      \<and> shape4 masks 2 4 256 256 \<and> shape2 iou 2 4
      \<and> forward example_decoder example_image example_image example_sparse example_dense True =
           Some (map (\<lambda>m. map (\<lambda>k. m ! k) [1..<4]) masks, map (\<lambda>q. map (\<lambda>k. q ! k) [1..<4]) iou)
      \<and> forward example_decoder example_image example_image example_sparse example_dense False =
           Some (map (\<lambda>m. [m ! 0]) masks, map (\<lambda>q. [q ! 0]) iou))"
proof -
  have k: "keeps_shape (identity_norm (256 div 4)) (nat (256 div 4))"
    by (rule identity_norm_keeps_shape)
  have t: "transformer_contract flat_transformer 2 (nat 256) 64 64 (1 + nat (3 + 1) + 2)"
    by (rule flat_transformer_contract) simp
  have s: "shape4 example_image 1 (nat 256) 64 64" "shape3 example_sparse 2 2 (nat 256)"
    "shape4 example_dense 2 (nat 256) 64 64" using example_shapes by simp_all
  from forward_selects_slots[OF example_decoder_init _ _ k t s(1) s(1) s(2) s(3)]
  have "\<exists>masks iou.
        predict_masks example_decoder example_image example_image example_sparse example_dense
          = Some (masks, iou)
      \<and> shape4 masks 2 4 256 256 \<and> shape2 iou 2 4
      \<and> forward example_decoder example_image example_image example_sparse example_dense True =
           Some (map (\<lambda>m. map (\<lambda>k. m ! k) [1..<4]) masks, map (\<lambda>q. map (\<lambda>k. q ! k) [1..<4]) iou)
      \<and> forward example_decoder example_image example_image example_sparse example_dense False =
           Some (map (\<lambda>m. [m ! 0]) masks, map (\<lambda>q. [q ! 0]) iou)"
    by simp
  with example_decoder_init k t s show ?thesis by simp
qed

section \<open>Batching, the upscaler, construction, the hypernetworks and the tokens\<close>





text \<open>
  Claim C3. The upscaler of a constructed decoder is the sequence: transposed convolution
  (kernel 2, stride 2) from \<open>C\<close> to \<open>C div 4\<close> channels, normalisation, activation, transposed
  convolution (kernel 2, stride 2) from \<open>C div 4\<close> to \<open>C div 8\<close> channels, activation. On a
  feature map of shape [B, C, H, W] with \<open>H, W \<ge> 1\<close> it returns a tensor of shape
  [B, C div 8, 4H, 4W]. (\<open>div\<close> is the source's floor division; the channel counts are
  \<open>C / 4\<close> and \<open>C / 8\<close> when 8 divides \<open>C\<close>.)
\<close>

theorem upscaler_two_stages:
  assumes d: "MaskDecoder_init g nrm td tr nmo act depth hid = Some d"
    and nrm: "keeps_shape (nrm (td div 4)) (nat (td div 4))"
    and x: "shape4 x b (nat td) h w" and h: "1 \<le> h" and w: "1 \<le> w"
  shows "\<exists>c1 c2 y.
      output_upscaling d = [ConvT c1, Norm (nrm (td div 4)), Act act, ConvT c2, Act act]
    \<and> in_channels c1 = nat td \<and> out_channels c1 = nat (td div 4)
    \<and> kernel_size c1 = 2 \<and> stride c1 = 2
    \<and> in_channels c2 = nat (td div 4) \<and> out_channels c2 = nat (td div 8)
    \<and> kernel_size c2 = 2 \<and> stride c2 = 2
    \<and> Sequential_forward (output_upscaling d) x = Some y
    \<and> shape4 y b (nat (td div 8)) (4 * h) (4 * w)"
proof -
  from MaskDecoder_init_Some[OF d] obtain c1 c2 where
    "output_upscaling d = [ConvT c1, Norm (nrm (td div 4)), Act act, ConvT c2, Act act]"
    "in_channels c1 = nat td" "out_channels c1 = nat (td div 4)"
    "kernel_size c1 = 2" "stride c1 = 2"
    "in_channels c2 = nat (td div 4)" "out_channels c2 = nat (td div 8)"
    "kernel_size c2 = 2" "stride c2 = 2"
    by blast
  moreover from upscaling_shape[OF d nrm x h] obtain y where
    "Sequential_forward (output_upscaling d) x = Some y"
    "shape4 y b (nat (td div 8)) (4 * h) (4 * w)" by blast
  ultimately show ?thesis by blast
qed

theorem upscaler_two_stages_witness:
  "MaskDecoder_init example_gen identity_norm 256 flat_transformer 3 relu 3 256 = Some example_decoder
   \<and> keeps_shape (identity_norm 64) 64
   \<and> shape4 example_dense 2 256 64 64
   \<and> (\<exists>c1 c2 y.
        output_upscaling example_decoder
          = [ConvT c1, Norm (identity_norm 64), Act relu, ConvT c2, Act relu]
      \<and> in_channels c1 = 256 \<and> out_channels c1 = 64 \<and> kernel_size c1 = 2 \<and> stride c1 = 2
      \<and> in_channels c2 = 64 \<and> out_channels c2 = 32 \<and> kernel_size c2 = 2 \<and> stride c2 = 2
      \<and> Sequential_forward (output_upscaling example_decoder) example_dense = Some y
      \<and> shape4 y 2 32 256 256)"
proof -
  have k: "keeps_shape (identity_norm (256 div 4)) (nat (256 div 4))"
    by (rule identity_norm_keeps_shape)
  have s: "shape4 example_dense 2 (nat 256) 64 64" using example_shapes by simp
  have "\<exists>c1 c2 y.
        output_upscaling example_decoder
          = [ConvT c1, Norm (identity_norm 64), Act relu, ConvT c2, Act relu]
      \<and> in_channels c1 = 256 \<and> out_channels c1 = 64 \<and> kernel_size c1 = 2 \<and> stride c1 = 2
      \<and> in_channels c2 = 64 \<and> out_channels c2 = 32 \<and> kernel_size c2 = 2 \<and> stride c2 = 2
      \<and> Sequential_forward (output_upscaling example_decoder) example_dense = Some y
      \<and> shape4 y 2 32 256 256"
    using upscaler_two_stages[OF example_decoder_init k s] by simp
  with example_decoder_init k s show ?thesis by simp
qed





lemma token_positions:
  assumes iw: "shape2 iw 1 c" and mw: "shape2 mw m c" and s: "length s = n"
  shows "((iw @ mw) @ s) ! 0 = iw ! 0 \<and> (\<forall>i<m. ((iw @ mw) @ s) ! (1 + i) = mw ! i)
         \<and> (\<forall>j<n. ((iw @ mw) @ s) ! (1 + m + j) = s ! j)"
proof -
  have l: "length iw = 1" "length mw = m" using iw mw by (simp_all add: shape2_def)
  then show ?thesis by (simp add: nth_append)
qed



text \<open>
  Claim C5. On a well-formed call the tokens given to the transformer are, for every prompt
  instance, the quality token at index 0, the \<open>M\<close> mask tokens at indices \<open>1, \<dots>, M\<close> and the
  instance's \<open>N\<close> sparse prompt embeddings after them (\<open>1 + M + N\<close> tokens), the batch size
  being that of the sparse prompt embeddings; the quality scores are the quality head
  applied to the refined tokens at index 0, and hypernetwork \<open>i\<close> is applied to the refined
  tokens at index \<open>1 + i\<close>.
\<close>

theorem token_sequence_layout:
  assumes d: "MaskDecoder_init g nrm td tr nmo act depth hid = Some d"
    and td: "8 \<le> td" and nmo: "0 \<le> nmo"
    and nrm: "keeps_shape (nrm (td div 4)) (nat (td div 4))"
    and tr: "transformer_contract tr B (nat td) H W (1 + nat (nmo + 1) + N)"
    and img: "shape4 img 1 (nat td) H W" and pe: "shape4 pe 1 (nat td) H W"
    and sp: "shape3 sp B N (nat td)"
    and dn: "shape4 dn Bd (nat td) H W" and bd: "Bd = B \<or> Bd = 1"
    and pos: "1 \<le> B" "1 \<le> H" "1 \<le> W"
  shows "\<exists>tokens src hs src2 srcv up hyper masks iou.
      tokens = map (\<lambda>s. (emb_weight (iou_token d) @ emb_weight (mask_tokens d)) @ s) sp
    \<and> length (emb_weight (iou_token d)) = 1
    \<and> length (emb_weight (mask_tokens d)) = nat (nmo + 1)
    \<and> length tokens = length sp
    \<and> shape3 tokens B (1 + nat (nmo + 1) + N) (nat td)
    \<and> (\<forall>b<B. tokens ! b ! 0 = emb_weight (iou_token d) ! 0
            \<and> (\<forall>i<nat (nmo + 1). tokens ! b ! (1 + i) = emb_weight (mask_tokens d) ! i)
            \<and> (\<forall>j<N. tokens ! b ! (1 + nat (nmo + 1) + j) = sp ! b ! j))
    \<and> add4 (repeat_interleave img B) dn = Some src
    \<and> transformer d src (repeat_interleave pe B) tokens = (hs, src2)
    \<and> shape3 hs B (1 + nat (nmo + 1) + N) (nat td)
    \<and> MLP_forward (iou_prediction_head d) (map (\<lambda>t. t ! 0) hs) = Some iou
    \<and> (\<forall>i<nat (nmo + 1). MLP_forward (output_hypernetworks_mlps d ! i) (map (\<lambda>t. t ! (1 + i)) hs)
                            = Some (map (\<lambda>hb. hb ! i) hyper))
    \<and> view4 (map transpose2 src2) B (nat td) H W = Some srcv
    \<and> Sequential_forward (output_upscaling d) srcv = Some up
    \<and> (\<forall>b<B. \<forall>i<nat (nmo + 1). \<forall>y<4 * H. \<forall>x<4 * W.
          masks ! b ! i ! y ! x = (\<Sum>k<nat (td div 8). hyper ! b ! i ! k * up ! b ! k ! y ! x))
    \<and> predict_masks d img pe sp dn = Some (masks, iou)"
proof (rule predict_masks_run[OF d td nmo nrm tr img pe sp dn bd pos])
  let ?iw = "emb_weight (iou_token d)" and ?mw = "emb_weight (mask_tokens d)"
  let ?tokens = "map (\<lambda>s. (?iw @ ?mw) @ s) sp"
  fix src hs src2 srcv up hyper masks iou
  assume a: "add4 (repeat_interleave img B) dn = Some src"
    "transformer d src (repeat_interleave pe B) ?tokens = (hs, src2)"
    "shape3 hs B (1 + nat (nmo + 1) + N) (nat td)"
    "MLP_forward (iou_prediction_head d) (map (\<lambda>t. t ! 0) hs) = Some iou"
    "\<forall>i<nat (nmo + 1). MLP_forward (output_hypernetworks_mlps d ! i) (map (\<lambda>t. t ! (1 + i)) hs)
                            = Some (map (\<lambda>hb. hb ! i) hyper)"
    "view4 (map transpose2 src2) B (nat td) H W = Some srcv"
    "Sequential_forward (output_upscaling d) srcv = Some up"
    "\<forall>b<B. \<forall>i<nat (nmo + 1). \<forall>y<4 * H. \<forall>x<4 * W.
          masks ! b ! i ! y ! x = (\<Sum>k<nat (td div 8). hyper ! b ! i ! k * up ! b ! k ! y ! x)"
    "predict_masks d img pe sp dn = Some (masks, iou)"
  and tsh: "shape3 ?tokens B (1 + nat (nmo + 1) + N) (nat td)"
  from MaskDecoder_init_Some[OF d] have
    iw: "shape2 ?iw 1 (nat td)" and mw: "shape2 ?mw (nat (nmo + 1)) (nat td)" by blast+
  then have l: "length ?iw = 1" "length ?mw = nat (nmo + 1)" by (simp_all add: shape2_def)
  have lt: "length ?tokens = length sp" by simp
  have lb: "length sp = B" using sp by (simp add: shape3_def)
  have p: "\<forall>b<B. ?tokens ! b ! 0 = ?iw ! 0
            \<and> (\<forall>i<nat (nmo + 1). ?tokens ! b ! (1 + i) = ?mw ! i)
            \<and> (\<forall>j<N. ?tokens ! b ! (1 + nat (nmo + 1) + j) = sp ! b ! j)"
  proof (intro allI impI)
    fix b assume b: "b < B"
    from shape3_nth[OF sp b] have "length (sp ! b) = N" by (simp add: shape2_def)
    from token_positions[OF iw mw this] b lb
    show "?tokens ! b ! 0 = ?iw ! 0
            \<and> (\<forall>i<nat (nmo + 1). ?tokens ! b ! (1 + i) = ?mw ! i)
            \<and> (\<forall>j<N. ?tokens ! b ! (1 + nat (nmo + 1) + j) = sp ! b ! j)" by simp
  qed
  show ?thesis
    by (intro exI[of _ ?tokens] exI[of _ src] exI[of _ hs] exI[of _ src2] exI[of _ srcv]
          exI[of _ up] exI[of _ hyper] exI[of _ masks] exI[of _ iou] conjI refl a l lt tsh p)
qed

theorem token_sequence_layout_witness:
  "MaskDecoder_init example_gen identity_norm 256 flat_transformer 3 relu 3 256 = Some example_decoder
   \<and> keeps_shape (identity_norm 64) 64
   \<and> transformer_contract flat_transformer 2 256 64 64 7
   \<and> shape4 example_image 1 256 64 64 \<and> shape3 example_sparse 2 2 256
   \<and> shape4 example_dense 2 256 64 64
   \<and> (\<exists>tokens hs masks iou.
        tokens = map (\<lambda>s. (emb_weight (iou_token example_decoder)
                            @ emb_weight (mask_tokens example_decoder)) @ s) example_sparse
      \<and> shape3 tokens 2 7 256
      \<and> tokens ! 1 ! 0 = emb_weight (iou_token example_decoder) ! 0
      \<and> tokens ! 1 ! 4 = emb_weight (mask_tokens example_decoder) ! 3
      \<and> tokens ! 1 ! 6 = example_sparse ! 1 ! 1
      \<and> shape3 hs 2 7 256
      \<and> MLP_forward (iou_prediction_head example_decoder) (map (\<lambda>t. t ! 0) hs) = Some iou
      \<and> predict_masks example_decoder example_image example_image example_sparse example_dense
           = Some (masks, iou))"
proof -
  have k: "keeps_shape (identity_norm (256 div 4)) (nat (256 div 4))"
    by (rule identity_norm_keeps_shape)
  have t: "transformer_contract flat_transformer 2 (nat 256) 64 64 (1 + nat (3 + 1) + 2)"
    by (rule flat_transformer_contract) simp
  have s: "shape4 example_image 1 (nat 256) 64 64" "shape3 example_sparse 2 2 (nat 256)"
    "shape4 example_dense 2 (nat 256) 64 64" using example_shapes by simp_all
  let ?tokens = "map (\<lambda>s. (emb_weight (iou_token example_decoder)
                            @ emb_weight (mask_tokens example_decoder)) @ s) example_sparse"
  have n: "(8::int) \<le> 256" "(0::int) \<le> 3" "(2::nat) = 2 \<or> (2::nat) = 1"
    "(1::nat) \<le> 2" "(1::nat) \<le> 64" by simp_all
  from token_sequence_layout[OF example_decoder_init n(1,2) k t s(1) s(1) s(2) s(3)
      n(3,4,5,5)]
  obtain hs masks iou where
    a: "shape3 ?tokens 2 (1 + nat (3 + 1) + 2) (nat 256)"
    and b: "\<forall>b<2. ?tokens ! b ! 0 = emb_weight (iou_token example_decoder) ! 0
            \<and> (\<forall>i<nat (3 + 1). ?tokens ! b ! (1 + i) = emb_weight (mask_tokens example_decoder) ! i)
            \<and> (\<forall>j<2. ?tokens ! b ! (1 + nat (3 + 1) + j) = example_sparse ! b ! j)"
    and c: "shape3 hs 2 (1 + nat (3 + 1) + 2) (nat 256)"
    and e: "MLP_forward (iou_prediction_head example_decoder) (map (\<lambda>t. t ! 0) hs) = Some iou"
    and p: "predict_masks example_decoder example_image example_image example_sparse example_dense
           = Some (masks, iou)"
    by blast
  have i: "(1::nat) < 2" "(3::nat) < nat (3 + 1)" by simp_all
  from b i(1) have bb: "?tokens ! 1 ! 0 = emb_weight (iou_token example_decoder) ! 0
            \<and> (\<forall>i<nat (3 + 1). ?tokens ! 1 ! (1 + i) = emb_weight (mask_tokens example_decoder) ! i)
            \<and> (\<forall>j<2. ?tokens ! 1 ! (1 + nat (3 + 1) + j) = example_sparse ! 1 ! j)"
    by blast
  from bb have b1: "?tokens ! 1 ! 0 = emb_weight (iou_token example_decoder) ! 0" by blast
  from bb i(2) have b2: "?tokens ! 1 ! (1 + 3) = emb_weight (mask_tokens example_decoder) ! 3"
    by blast
  from bb i(1) have b3: "?tokens ! 1 ! (1 + nat (3 + 1) + 1) = example_sparse ! 1 ! 1"
    by blast
  from a b1 b2 b3 c e p have "\<exists>tokens hs masks iou.
        tokens = ?tokens
      \<and> shape3 tokens 2 7 256
      \<and> tokens ! 1 ! 0 = emb_weight (iou_token example_decoder) ! 0
      \<and> tokens ! 1 ! 4 = emb_weight (mask_tokens example_decoder) ! 3
      \<and> tokens ! 1 ! 6 = example_sparse ! 1 ! 1
      \<and> shape3 hs 2 7 256
      \<and> MLP_forward (iou_prediction_head example_decoder) (map (\<lambda>t. t ! 0) hs) = Some iou
      \<and> predict_masks example_decoder example_image example_image example_sparse example_dense
           = Some (masks, iou)"
    by (intro exI[of _ ?tokens] exI[of _ hs] exI[of _ masks] exI[of _ iou]) simp
  with example_decoder_init k t s show ?thesis by simp
qed

end
